theory Spec2Isabelle
  imports Complex_Main "HOL-Library.Sublist"
begin

section \<open>Favorites store (favoritesSlice)\<close>

text \<open>
  The slice state holds one field, the ordered list of selected coin identifiers.
  The reducers are written with in-place mutation on a draft; the model returns the
  updated state. \<open>Array.prototype.includes\<close> on strings is list membership,
  \<open>filter\<close> keeps the order of the kept elements and \<open>push\<close> appends at the end.
\<close>

record FavoritesState =
  selectedIds :: "string list"

definition MAX_FAVORITES :: nat where
  "MAX_FAVORITES = 5"

definition initialState :: FavoritesState where
  "initialState = \<lparr> selectedIds = [] \<rparr>"

definition toggleFavorite :: "string \<Rightarrow> FavoritesState \<Rightarrow> FavoritesState" where
  "toggleFavorite coinId state =
     (if coinId \<in> set (selectedIds state)
      then state\<lparr> selectedIds := filter (\<lambda>i. i \<noteq> coinId) (selectedIds state) \<rparr>
      else if length (selectedIds state) < MAX_FAVORITES
      then state\<lparr> selectedIds := selectedIds state @ [coinId] \<rparr>
      else state)"

definition replaceFavorite :: "string \<Rightarrow> string \<Rightarrow> FavoritesState \<Rightarrow> FavoritesState" where
  "replaceFavorite removeId addId state =
     (let state1 = state\<lparr> selectedIds := filter (\<lambda>i. i \<noteq> removeId) (selectedIds state) \<rparr>
      in if addId \<notin> set (selectedIds state1) \<and> length (selectedIds state1) < MAX_FAVORITES
         then state1\<lparr> selectedIds := selectedIds state1 @ [addId] \<rparr>
         else state1)"

text \<open>The two actions the slice exports, and the reducer that dispatches on them.\<close>

datatype action = ToggleFavorite string | ReplaceFavorite string string

fun reducer :: "FavoritesState \<Rightarrow> action \<Rightarrow> FavoritesState" where
  "reducer state (ToggleFavorite coinId) = toggleFavorite coinId state"
| "reducer state (ReplaceFavorite removeId addId) = replaceFavorite removeId addId state"

definition dispatch_all :: "action list \<Rightarrow> FavoritesState \<Rightarrow> FavoritesState" where
  "dispatch_all acts state = foldl reducer state acts"

text \<open>
  The invariant of the favorites list: at most five identifiers, none twice.
\<close>

definition favorites_inv :: "FavoritesState \<Rightarrow> bool" where
  "favorites_inv state \<longleftrightarrow>
     length (selectedIds state) \<le> MAX_FAVORITES \<and> distinct (selectedIds state)"

text \<open>
  The identifier an action may take out of the list: the toggled identifier, or the
  \<open>removeId\<close> of a replacement. Every other member stays.
\<close>

fun removal_target :: "action \<Rightarrow> string" where
  "removal_target (ToggleFavorite coinId) = coinId"
| "removal_target (ReplaceFavorite removeId addId) = removeId"

text \<open>
  The identifier an action may put into the list: the toggled identifier, or the
  \<open>addId\<close> of a replacement.
\<close>

fun inserted_id :: "action \<Rightarrow> string" where
  "inserted_id (ToggleFavorite coinId) = coinId"
| "inserted_id (ReplaceFavorite removeId addId) = addId"

section \<open>Startup load of the persisted favorites (store)\<close>

text \<open>
  What \<open>JSON.parse\<close> can return: the JSON values. Numbers are kept as integers here,
  since the loader only asks whether an item is a string.
\<close>

datatype json =
    JNull
  | JBool bool
  | JNumber int
  | JString string
  | JArray "json list"
  | JObject "(string \<times> json) list"

text \<open>
  What the \<open>try\<close> block meets: \<open>localStorage.getItem\<close> throws (storage disabled),
  returns \<open>null\<close> (key absent), returns text that \<open>JSON.parse\<close> rejects, or returns
  text that parses to a value.
\<close>

datatype persisted =
    StorageThrows
  | NoItem
  | ParseThrows
  | Parsed json

fun is_string :: "json \<Rightarrow> bool" where
  "is_string (JString s) = True"
| "is_string _ = False"

fun string_of :: "json \<Rightarrow> string" where
  "string_of (JString s) = s"
| "string_of _ = []"

fun loadPersistedFavorites :: "persisted \<Rightarrow> string list" where
  "loadPersistedFavorites StorageThrows = []"
| "loadPersistedFavorites NoItem = []"
| "loadPersistedFavorites ParseThrows = []"
| "loadPersistedFavorites (Parsed (JArray parsed)) =
     take MAX_FAVORITES (map string_of (filter is_string parsed))"
| "loadPersistedFavorites (Parsed _) = []"

definition preloadedState :: "persisted \<Rightarrow> FavoritesState" where
  "preloadedState p = \<lparr> selectedIds = loadPersistedFavorites p \<rparr>"

section \<open>Numbers and strings of the host language\<close>

text \<open>
  A number of the program is an IEEE double: not-a-number, one of the two infinities,
  the negative zero, or another finite value. Every finite double is a real number,
  and the model lets the case \<open>Finite\<close> range over all real numbers, which contain
  them; \<open>Finite 0\<close> is the positive zero. Comparisons with \<open>NaN\<close> are false, and the
  negative zero compares like the positive one, as in the language.
\<close>

datatype number = NaN | PosInfinity | NegInfinity | Finite real | NegZero

fun num_less :: "number \<Rightarrow> number \<Rightarrow> bool" where
  "num_less NaN _ = False"
| "num_less _ NaN = False"
| "num_less PosInfinity _ = False"
| "num_less _ NegInfinity = False"
| "num_less NegInfinity _ = True"
| "num_less _ PosInfinity = True"
| "num_less (Finite a) (Finite b) = (a < b)"
| "num_less (Finite a) NegZero = (a < 0)"
| "num_less NegZero (Finite b) = (0 < b)"
| "num_less NegZero NegZero = False"

fun isNaN :: "number \<Rightarrow> bool" where
  "isNaN NaN = True"
| "isNaN _ = False"

text \<open>
  Strings are sequences of 8-bit characters. Case conversion is that of the letters a
  to z and A to Z, and every other character is left as it is; on strings of ASCII
  characters this is what \<open>toUpperCase\<close> and \<open>toLowerCase\<close> of the host do. The host also
  converts the letters outside ASCII, which the model does not represent.
\<close>

definition upper_char :: "char \<Rightarrow> char" where
  "upper_char c =
     (case map_of (zip ''abcdefghijklmnopqrstuvwxyz'' ''ABCDEFGHIJKLMNOPQRSTUVWXYZ'') c of
        Some u \<Rightarrow> u | None \<Rightarrow> c)"

definition lower_char :: "char \<Rightarrow> char" where
  "lower_char c =
     (case map_of (zip ''ABCDEFGHIJKLMNOPQRSTUVWXYZ'' ''abcdefghijklmnopqrstuvwxyz'') c of
        Some l \<Rightarrow> l | None \<Rightarrow> c)"

definition toUpperCase :: "string \<Rightarrow> string" where
  "toUpperCase s = map upper_char s"

definition toLowerCase :: "string \<Rightarrow> string" where
  "toLowerCase s = map lower_char s"

text \<open>
  \<open>trim\<close> removes white space and line terminators at both ends: tab, line feed,
  vertical tab, form feed, carriage return, space and the no-break space, which are
  the ones among the 8-bit characters.
\<close>

definition is_space :: "char \<Rightarrow> bool" where
  "is_space c \<longleftrightarrow>
     c \<in> set [CHR 0x09, CHR 0x0A, CHR 0x0B, CHR 0x0C, CHR 0x0D, CHR 0x20, CHR 0xA0]"

definition trim :: "string \<Rightarrow> string" where
  "trim s = rev (dropWhile is_space (rev (dropWhile is_space s)))"

fun join :: "string \<Rightarrow> string list \<Rightarrow> string" where
  "join sep [] = []"
| "join sep [x] = x"
| "join sep (x # y # ys) = x @ sep @ join sep (y # ys)"

definition digit_char :: "nat \<Rightarrow> char" where
  "digit_char d = ''0123456789'' ! (d mod 10)"

fun decimal :: "nat \<Rightarrow> string" where
  "decimal n = (if n < 10 then [digit_char n] else decimal (n div 10) @ [digit_char (n mod 10)])"

declare decimal.simps [simp del]

text \<open>
  \<open>Number.prototype.toFixed\<close>, following the steps of the language standard: a value
  that is not finite gives its name; otherwise the mathematical value is taken (0 for
  either zero), the sign is split off, and for a magnitude below \<open>10^21\<close> the integer
  \<open>n\<close> nearest to the magnitude times \<open>10^f\<close> is taken (the larger one on a tie),
  written in decimal, padded with zeros in front to at least \<open>f + 1\<close> digits, and a
  point is put before the last \<open>f\<close> digits. From \<open>10^21\<close> on the standard falls back
  on the shortest round-trip notation of the double, which depends on the double
  format; that function is the parameter \<open>bigToString\<close>.
\<close>

definition toFixed_real :: "(real \<Rightarrow> string) \<Rightarrow> nat \<Rightarrow> real \<Rightarrow> string" where
  "toFixed_real bigToString f x0 =
     (let s = (if x0 < 0 then ''-'' else []);
          x = \<bar>x0\<bar>
      in if x \<ge> 10 ^ 21 then s @ bigToString x
         else
           (let n = nat \<lfloor>x * 10 ^ f + 1 / 2\<rfloor>;
                m0 = decimal n;
                m = (if f \<noteq> 0 \<and> length m0 \<le> f
                     then replicate (f + 1 - length m0) (CHR ''0'') @ m0 else m0);
                k = length m
            in s @ (if f \<noteq> 0 then take (k - f) m @ ''.'' @ drop (k - f) m else m)))"

definition toFixed :: "(real \<Rightarrow> string) \<Rightarrow> nat \<Rightarrow> number \<Rightarrow> string" where
  "toFixed bigToString f v =
     (case v of
        NaN \<Rightarrow> ''NaN''
      | PosInfinity \<Rightarrow> ''Infinity''
      | NegInfinity \<Rightarrow> ''-Infinity''
      | Finite x0 \<Rightarrow> toFixed_real bigToString f x0
      | NegZero \<Rightarrow> toFixed_real bigToString f 0)"

section \<open>Price clamp for display (validation)\<close>

definition MAX_PRICE_DISPLAY :: number where
  "MAX_PRICE_DISPLAY = Finite 100000"

definition clampPriceForDisplay :: "number \<Rightarrow> number" where
  "clampPriceForDisplay v =
     (if isNaN v then Finite 0
      else if num_less v (Finite 0) then Finite 0
      else if num_less MAX_PRICE_DISPLAY v then MAX_PRICE_DISPLAY
      else v)"

text \<open>
  \<open>formatPriceForDisplay\<close> hands the clamped value to
  \<open>Number.prototype.toLocaleString\<close> for the locale \<open>en-US\<close> with at least 0 and at
  most 2 fraction digits. What that function prints is decided by the host's locale
  data and by the digits of the double; it is the parameter \<open>toLocaleString\<close>.
\<close>

definition formatPriceForDisplay :: "(number \<Rightarrow> string) \<Rightarrow> number \<Rightarrow> string" where
  "formatPriceForDisplay toLocaleString v = toLocaleString (clampPriceForDisplay v)"

section \<open>Recommendation prompt (aiService)\<close>

text \<open>
  The market snapshot. A percent change that is \<open>null\<close> or \<open>undefined\<close> is \<open>None\<close>.
\<close>

record CoinMarketDataForAi =
  name :: string
  symbol :: string
  currentPriceUsd :: number
  priceChange24h :: "number option"
  priceChange30d :: "number option"
  priceChange60d :: "number option"
  priceChange200d :: "number option"
  totalVolume :: number
  marketCap :: number

definition pct :: "(real \<Rightarrow> string) \<Rightarrow> number option \<Rightarrow> string" where
  "pct bigToString v =
     (case v of
        None \<Rightarrow> ''N/A''
      | Some x \<Rightarrow> if isNaN x then ''N/A'' else toFixed bigToString 2 x @ ''%'')"

definition marketDataLines ::
    "(number \<Rightarrow> string) \<Rightarrow> (real \<Rightarrow> string) \<Rightarrow> CoinMarketDataForAi \<Rightarrow> string list" where
  "marketDataLines toLocaleString bigToString d =
     [ ''Coin: '' @ name d @ '' ('' @ toUpperCase (symbol d) @ '')'',
       ''Current price (USD): $'' @ formatPriceForDisplay toLocaleString (currentPriceUsd d),
       ''Market cap (USD): $'' @ formatPriceForDisplay toLocaleString (marketCap d),
       ''24h volume (USD): $'' @ formatPriceForDisplay toLocaleString (totalVolume d),
       ''24h price change: '' @ pct bigToString (priceChange24h d),
       ''30d price change: '' @ pct bigToString (priceChange30d d),
       ''60d price change: '' @ pct bigToString (priceChange60d d),
       ''200d price change: '' @ pct bigToString (priceChange200d d) ]"

definition formatMarketData ::
    "(number \<Rightarrow> string) \<Rightarrow> (real \<Rightarrow> string) \<Rightarrow> CoinMarketDataForAi \<Rightarrow> string" where
  "formatMarketData toLocaleString bigToString d =
     join [CHR 0x0A] (marketDataLines toLocaleString bigToString d)"

text \<open>
  A formatter for the examples: it knows how the values met there are printed.
\<close>

definition example_toLocaleString :: "number \<Rightarrow> string" where
  "example_toLocaleString v =
     (if v = Finite 0 then ''0''
      else if v = Finite 100000 then ''100,000''
      else if v = Finite 1234.5 then ''1,234.5''
      else ''?'')"

section \<open>What a rejected request throws\<close>

text \<open>
  An error of the HTTP library carries the status of the response when there was one,
  an error code when the library set one, and a message. A thrown value is such an
  error, another \<open>Error\<close> object with its message, or something that is not an
  \<open>Error\<close> at all.
\<close>

record axios_error =
  status :: "nat option"
  code :: "string option"
  message :: string

datatype thrown = Axios axios_error | PlainError string | NonError

datatype 'a settled = Resolved 'a | Rejected thrown

section \<open>Live price poller (Reports)\<close>

definition MAX_DATA_POINTS :: nat where
  "MAX_DATA_POINTS = 30"

record Coin =
  coin_id :: string
  coin_symbol :: string

text \<open>
  The body of a quote response: its entries in order, each a symbol with the \<open>USD\<close>
  field of its record (\<open>None\<close> when the record or the field is missing or \<open>null\<close>).
  A body that has no entries to enumerate makes the function throw, which is a
  rejection with that error.
\<close>

type_synonym quote_data = "(string \<times> number option) list"

definition collect_quotes :: "quote_data \<Rightarrow> (string \<rightharpoonup> number)" where
  "collect_quotes entries =
     foldl (\<lambda>out (sym, usd). case usd of Some v \<Rightarrow> out(toUpperCase sym \<mapsto> v) | None \<Rightarrow> out)
           Map.empty entries"

definition fetchPricesUsdCryptoCompare ::
    "string list \<Rightarrow> quote_data settled \<Rightarrow> thrown + (string \<rightharpoonup> number)" where
  "fetchPricesUsdCryptoCompare symbols response =
     (if symbols = [] then Inr Map.empty
      else case response of
          Resolved entries \<Rightarrow> Inr (collect_quotes entries)
        | Rejected err \<Rightarrow>
            (case err of
               Axios e \<Rightarrow>
                 if status e = Some 429
                 then Inl (PlainError ''Too many requests (rate limit). Try again in a moment.'')
                 else if code e = Some ''ERR_NETWORK'' \<or> message e = ''Network Error''
                 then Inl (PlainError ''Network error. Check your connection or try again later.'')
                 else Inl err
             | _ \<Rightarrow> Inl err))"

text \<open>
  A cell of a history point: the time label or a price. A point maps the key
  \<open>time\<close> and the coin identifiers to cells.
\<close>

datatype cell = Label string | Price number

type_synonym point = "string \<rightharpoonup> cell"

record ReportsState =
  priceHistory :: "point list"
  loading :: bool
  error :: "string option"

definition symbol_for :: "Coin list \<Rightarrow> string \<Rightarrow> string" where
  "symbol_for coins coinId =
     (case find (\<lambda>item. coin_id item = coinId) coins of
        Some c \<Rightarrow> toUpperCase (coin_symbol c)
      | None \<Rightarrow> toUpperCase coinId)"

text \<open>
  The assignment \<open>point[key] = value\<close> on the object literal, for a value that is a
  number. The point is a plain object, and a \<open>point\<close> of the model holds its own
  properties. The key \<open>__proto__\<close> names the accessor that every plain object
  inherits, and its setter ignores a value that is not an object: the assignment
  creates no property. Every other key gets an own property with the value (also a
  key like \<open>constructor\<close> or \<open>time\<close>: an inherited data property is shadowed, an own
  one is overwritten).
\<close>

definition set_property :: "string \<Rightarrow> cell \<Rightarrow> point \<Rightarrow> point" where
  "set_property key v obj = (if key = ''__proto__'' then obj else obj(key \<mapsto> v))"

definition build_point ::
    "string list \<Rightarrow> Coin list \<Rightarrow> (string \<rightharpoonup> number) \<Rightarrow> string \<Rightarrow> point" where
  "build_point favoriteIds coins pricesBySymbol time =
     foldl (\<lambda>pt coinId.
              set_property coinId
                (Price (case pricesBySymbol (symbol_for coins coinId) of
                          Some v \<Rightarrow> v | None \<Rightarrow> Finite 0)) pt)
           [''time'' \<mapsto> Label time] favoriteIds"

definition append_trimmed :: "point list \<Rightarrow> point \<Rightarrow> point list" where
  "append_trimmed prev pt =
     (let nxt = prev @ [pt]
      in if length nxt > MAX_DATA_POINTS then drop (length nxt - MAX_DATA_POINTS) nxt else nxt)"

definition error_text :: "thrown \<Rightarrow> string" where
  "error_text err =
     (case err of
        Axios e \<Rightarrow> message e
      | PlainError m \<Rightarrow> m
      | NonError \<Rightarrow> ''Failed to fetch prices'')"

text \<open>
  One run of \<open>fetchAndAppend\<close>: the favorites and the coin list it closes over, the
  outcome of the one quote request, and the formatted time at which the answer
  arrives.
\<close>

definition fetchAndAppend ::
    "string list \<Rightarrow> Coin list \<Rightarrow> quote_data settled \<Rightarrow> string \<Rightarrow> ReportsState \<Rightarrow> ReportsState" where
  "fetchAndAppend favoriteIds coins response time st =
     (if favoriteIds = [] then st
      else
        (let symbols = map (symbol_for coins) favoriteIds;
             st1 = st\<lparr> error := None \<rparr>
         in case fetchPricesUsdCryptoCompare symbols response of
              Inr pricesBySymbol \<Rightarrow>
                st1\<lparr> priceHistory :=
                       append_trimmed (priceHistory st1)
                         (build_point favoriteIds coins pricesBySymbol time),
                     loading := False \<rparr>
            | Inl err \<Rightarrow>
                st1\<lparr> error := Some (error_text err), loading := False \<rparr>))"

text \<open>The timer: one run per tick, each with its own inputs.\<close>

record tick =
  tick_favorites :: "string list"
  tick_coins :: "Coin list"
  tick_response :: "quote_data settled"
  tick_time :: string

definition run_tick :: "ReportsState \<Rightarrow> tick \<Rightarrow> ReportsState" where
  "run_tick st t =
     fetchAndAppend (tick_favorites t) (tick_coins t) (tick_response t) (tick_time t) st"

definition run_ticks :: "tick list \<Rightarrow> ReportsState \<Rightarrow> ReportsState" where
  "run_ticks ts st = foldl run_tick st ts"

text \<open>A tick succeeds when it has favorites and its request is answered.\<close>

definition tick_ok :: "tick \<Rightarrow> bool" where
  "tick_ok t \<longleftrightarrow>
     tick_favorites t \<noteq> [] \<and> (case tick_response t of Resolved _ \<Rightarrow> True | Rejected _ \<Rightarrow> False)"

definition tick_point :: "tick \<Rightarrow> point" where
  "tick_point t =
     build_point (tick_favorites t) (tick_coins t)
       (case tick_response t of Resolved entries \<Rightarrow> collect_quotes entries
                              | Rejected _ \<Rightarrow> Map.empty)
       (tick_time t)"

section \<open>Market data client: detail fetch (api)\<close>

subsection \<open>The response interceptor\<close>

definition isMoreInfoRequest :: "string \<Rightarrow> string \<Rightarrow> bool" where
  "isMoreInfoRequest url vs_currencies \<longleftrightarrow>
     sublist ''/simple/price'' url \<and> vs_currencies = ''usd,eur,ils''"

text \<open>
  The error handler installed on the client: it is given the URL and the
  \<open>vs_currencies\<close> parameter of the failed request and the error, rewrites the
  message of a library error of a detail request, and rejects with the error again.
\<close>

definition interceptor :: "string \<Rightarrow> string \<Rightarrow> thrown \<Rightarrow> thrown" where
  "interceptor url vs_currencies err =
     (case err of
        Axios e \<Rightarrow>
          if \<not> isMoreInfoRequest url vs_currencies then err
          else if status e = Some 429
          then Axios (e\<lparr> message :=
            ''Data temporarily unavailable due to high demand. Please try again in a minute.'' \<rparr>)
          else if message e = ''Network Error'' \<or> code e = Some ''ERR_NETWORK''
          then Axios (e\<lparr> message :=
            ''Network error. Check your connection or try again later.'' \<rparr>)
          else err
      | _ \<Rightarrow> err)"

subsection \<open>Module state, clock and timer\<close>

record prices =
  usd :: number
  eur :: number
  ils :: number

record cache_entry =
  data :: prices
  fetchedAt :: int

definition COIN_CACHE_TTL_MS :: int where
  "COIN_CACHE_TTL_MS = 2 * 60 * 1000"

definition MORE_INFO_MIN_INTERVAL_MS :: int where
  "MORE_INFO_MIN_INTERVAL_MS = 2000"

definition LOCK_DURATION_MS :: int where
  "LOCK_DURATION_MS = 10 * 1000"

definition RETRY_WAIT_MS :: nat where
  "RETRY_WAIT_MS = 3000"

text \<open>
  The module-level variables, together with what the module reads from and writes to
  its surroundings: \<open>now\<close> is the value of \<open>Date.now()\<close> in milliseconds,
  \<open>lockTimeoutId\<close> is the time at which the pending timer of \<open>setApiLocked\<close> is due
  (\<open>None\<close> for \<open>null\<close>), a listener is identified by a number, \<open>requests\<close> records
  the \<open>ids\<close> parameter of every detail request sent, and \<open>notified\<close> records every
  listener call.
\<close>

record api_state =
  coinCache :: "string \<rightharpoonup> cache_entry"
  lastMoreInfoRequestTime :: int
  isApiLocked :: bool
  lockEndTime :: int
  lockTimeoutId :: "int option"
  lockListeners :: "nat list"
  now :: int
  requests :: "string list"
  notified :: "nat list"

definition module_init :: "int \<Rightarrow> api_state" where
  "module_init t =
     \<lparr> coinCache = Map.empty, lastMoreInfoRequestTime = 0, isApiLocked = False,
       lockEndTime = 0, lockTimeoutId = None, lockListeners = [], now = t,
       requests = [], notified = [] \<rparr>"

text \<open>
  The timer callback of \<open>setApiLocked\<close>, and the passing of \<open>d\<close> milliseconds during
  which nothing but a due timer runs: the timer fires once the clock has reached its
  due time.
\<close>

definition lock_timeout_fires :: "api_state \<Rightarrow> api_state" where
  "lock_timeout_fires st =
     st\<lparr> isApiLocked := False, lockTimeoutId := None,
         notified := notified st @ lockListeners st \<rparr>"

definition elapse :: "nat \<Rightarrow> api_state \<Rightarrow> api_state" where
  "elapse d st =
     (let st1 = st\<lparr> now := now st + int d \<rparr>
      in case lockTimeoutId st1 of
           Some due \<Rightarrow> if due \<le> now st1 then lock_timeout_fires st1 else st1
         | None \<Rightarrow> st1)"

definition setApiLocked :: "api_state \<Rightarrow> api_state" where
  "setApiLocked st =
     st\<lparr> isApiLocked := True,
         lockEndTime := now st + LOCK_DURATION_MS,
         lockTimeoutId := Some (now st + LOCK_DURATION_MS) \<rparr>"

definition getMoreInfoLockState :: "api_state \<Rightarrow> bool \<times> int" where
  "getMoreInfoLockState st =
     (if \<not> isApiLocked st then (False, 0)
      else (True, max 0 (lockEndTime st - now st)))"

definition subscribeToMoreInfoLock :: "nat \<Rightarrow> api_state \<Rightarrow> api_state" where
  "subscribeToMoreInfoLock listener st = st\<lparr> lockListeners := lockListeners st @ [listener] \<rparr>"

definition unsubscribe :: "nat \<Rightarrow> api_state \<Rightarrow> api_state" where
  "unsubscribe listener st = st\<lparr> lockListeners := remove1 listener (lockListeners st) \<rparr>"

subsection \<open>Error classification\<close>

fun isRetryableError :: "thrown \<Rightarrow> bool" where
  "isRetryableError (Axios e) =
     (status e = Some 429 \<or> message e = ''Network Error'' \<or> code e = Some ''ERR_NETWORK'')"
| "isRetryableError _ = False"

fun is_rate_limit :: "thrown \<Rightarrow> bool" where
  "is_rate_limit (Axios e) = (status e = Some 429)"
| "is_rate_limit _ = False"

subsection \<open>The request and the fetch\<close>

text \<open>
  The body of a detail response: something that is not an object, or a record from
  identifiers to price records whose fields may be missing. A reply of the network is
  the time it takes and how the request settles.
\<close>

record raw_prices =
  raw_usd :: "number option"
  raw_eur :: "number option"
  raw_ils :: "number option"

datatype response_data = NotAnObject | Body "string \<rightharpoonup> raw_prices"

record reply =
  latency :: nat
  outcome :: "response_data settled"

definition or_zero :: "number option \<Rightarrow> number" where
  "or_zero v = (case v of Some x \<Rightarrow> x | None \<Rightarrow> Finite 0)"

definition settle_request :: "string \<Rightarrow> response_data settled \<Rightarrow> thrown + prices" where
  "settle_request normalizedId out =
     (case out of
        Rejected err \<Rightarrow> Inl (interceptor ''/simple/price'' ''usd,eur,ils'' err)
      | Resolved NotAnObject \<Rightarrow> Inl (PlainError ''Invalid response from CoinGecko'')
      | Resolved (Body body) \<Rightarrow>
          (case body normalizedId of
             None \<Rightarrow> Inr \<lparr> usd = Finite 0, eur = Finite 0, ils = Finite 0 \<rparr>
           | Some raw \<Rightarrow>
               Inr \<lparr> usd = or_zero (raw_usd raw), eur = or_zero (raw_eur raw),
                     ils = or_zero (raw_ils raw) \<rparr>))"

definition doRequest :: "string \<Rightarrow> reply \<Rightarrow> api_state \<Rightarrow> (thrown + prices) \<times> api_state" where
  "doRequest normalizedId r st =
     (settle_request normalizedId (outcome r),
      elapse (latency r) (st\<lparr> requests := requests st @ [normalizedId] \<rparr>))"

definition cached_valid :: "api_state \<Rightarrow> string \<Rightarrow> prices option" where
  "cached_valid st normalizedId =
     (case coinCache st normalizedId of
        Some cached \<Rightarrow>
          if now st - fetchedAt cached < COIN_CACHE_TTL_MS then Some (data cached) else None
      | None \<Rightarrow> None)"

definition store_in_cache :: "string \<Rightarrow> prices \<Rightarrow> api_state \<Rightarrow> api_state" where
  "store_in_cache normalizedId d st =
     st\<lparr> coinCache := (coinCache st)(normalizedId \<mapsto> \<lparr> data = d, fetchedAt = now st \<rparr>) \<rparr>"

definition throttle :: "api_state \<Rightarrow> api_state" where
  "throttle st =
     (let elapsed = now st - lastMoreInfoRequestTime st;
          st1 = (if elapsed < MORE_INFO_MIN_INTERVAL_MS
                 then elapse (nat (MORE_INFO_MIN_INTERVAL_MS - elapsed)) st else st)
      in st1\<lparr> lastMoreInfoRequestTime := now st1 \<rparr>)"

definition busy_error :: thrown where
  "busy_error = PlainError ''The server is busy. Please wait 10 seconds...''"

text \<open>
  \<open>fetchMoreInfo\<close>, run from its call to its return with no other call of the module
  in between: \<open>r1\<close> is the network's reply to the first request and \<open>r2\<close> its reply to
  the retry, should there be one.
\<close>

definition fetchMoreInfo ::
    "string \<Rightarrow> reply \<Rightarrow> reply \<Rightarrow> api_state \<Rightarrow> (thrown + prices) \<times> api_state" where
  "fetchMoreInfo coinId r1 r2 st =
     (let normalizedId = toLowerCase (trim coinId)
      in case cached_valid st normalizedId of
           Some d \<Rightarrow> (Inr d, st)
         | None \<Rightarrow>
             if isApiLocked st \<and> now st < lockEndTime st then (Inl busy_error, st)
             else
               (case doRequest normalizedId r1 (throttle st) of
                  (Inr d, st3) \<Rightarrow> (Inr d, store_in_cache normalizedId d st3)
                | (Inl err, st3) \<Rightarrow>
                    if isRetryableError err
                    then
                      (let st4 = (if is_rate_limit err then setApiLocked st3 else st3);
                           st5 = elapse RETRY_WAIT_MS st4
                       in case doRequest normalizedId r2 st5 of
                            (Inr d, st6) \<Rightarrow> (Inr d, store_in_cache normalizedId d st6)
                          | (Inl retryErr, st6) \<Rightarrow> (Inl retryErr, st6))
                    else (Inl err, st3)))"

text \<open>
  The state of the timer agrees with the lock flag: no timer is pending exactly when
  the flag is off, and a pending timer is due at \<open>lockEndTime\<close>, which is still ahead.
\<close>

definition lock_consistent :: "api_state \<Rightarrow> bool" where
  "lock_consistent st \<longleftrightarrow>
     (case lockTimeoutId st of
        None \<Rightarrow> \<not> isApiLocked st
      | Some due \<Rightarrow> isApiLocked st \<and> due = lockEndTime st \<and> now st < due)"

text \<open>
  The state in which the retry is sent: after the first request has failed with \<open>err\<close>,
  the lock has been engaged if \<open>err\<close> is a rate-limit response, and the retry wait has
  passed.
\<close>

definition after_first_failure :: "string \<Rightarrow> reply \<Rightarrow> thrown \<Rightarrow> api_state \<Rightarrow> api_state" where
  "after_first_failure nid r1 err st =
     elapse RETRY_WAIT_MS
       (if is_rate_limit err then setApiLocked (snd (doRequest nid r1 (throttle st)))
        else snd (doRequest nid r1 (throttle st)))"

subsection \<open>The fetch as interleaved steps\<close>

text \<open>
  \<open>fetchMoreInfo\<close> is an asynchronous function: it runs up to its next \<open>await\<close>, and
  other calls of the module run before it resumes. Here the function is cut at its
  awaits. A call is, at any moment, waiting for its throttle timer, waiting for the
  answer to its first request, waiting for its retry timer, waiting for the answer to
  its retry, or settled with the value it returned or the error it threw. It carries
  its normalized identifier and, while it waits for a timer, the time at which the
  timer is due.
\<close>

datatype stage =
    ThrottleWait string int
  | FirstRequest string
  | RetryWait string int
  | RetryRequest string
  | Settled string "thrown + prices"

fun stage_id :: "stage \<Rightarrow> string" where
  "stage_id (ThrottleWait normalizedId due) = normalizedId"
| "stage_id (FirstRequest normalizedId) = normalizedId"
| "stage_id (RetryWait normalizedId due) = normalizedId"
| "stage_id (RetryRequest normalizedId) = normalizedId"
| "stage_id (Settled normalizedId result) = normalizedId"

fun is_settled :: "stage \<Rightarrow> bool" where
  "is_settled (Settled normalizedId result) = True"
| "is_settled _ = False"

text \<open>
  The module state, the calls made so far in the order in which they were made, and
  the detail requests that went out, each with the index of the call that sent it.
\<close>

record run_state =
  api :: api_state
  calls :: "stage list"
  wire :: "(nat \<times> string) list"

text \<open>
  What can happen next: \<open>fetchMoreInfo\<close> is called; time passes; the timer on which
  call \<open>k\<close> waits fires; the network settles the request of call \<open>k\<close> that is in flight;
  a component subscribes to the lock or unsubscribes.
\<close>

datatype event =
    Call string
  | Elapse nat
  | TimerFires nat
  | Answer nat "response_data settled"
  | Subscribe nat
  | Unsubscribe nat

definition send_request :: "nat \<Rightarrow> string \<Rightarrow> run_state \<Rightarrow> run_state" where
  "send_request k normalizedId S =
     S\<lparr> api := (api S)\<lparr> requests := requests (api S) @ [normalizedId] \<rparr>,
        wire := wire S @ [(k, normalizedId)] \<rparr>"

text \<open>
  The call, up to its first \<open>await\<close> or its return: the cache check, the lock check,
  and the throttle, after which the request goes out at once when no wait is needed.
\<close>

definition fetchMoreInfo_call :: "string \<Rightarrow> run_state \<Rightarrow> run_state" where
  "fetchMoreInfo_call coinId S =
     (let st = api S;
          normalizedId = toLowerCase (trim coinId);
          k = length (calls S)
      in case cached_valid st normalizedId of
           Some d \<Rightarrow> S\<lparr> calls := calls S @ [Settled normalizedId (Inr d)] \<rparr>
         | None \<Rightarrow>
             if isApiLocked st \<and> now st < lockEndTime st
             then S\<lparr> calls := calls S @ [Settled normalizedId (Inl busy_error)] \<rparr>
             else
               (let elapsed = now st - lastMoreInfoRequestTime st
                in if elapsed < MORE_INFO_MIN_INTERVAL_MS
                   then S\<lparr> calls := calls S @
                          [ThrottleWait normalizedId
                             (now st + (MORE_INFO_MIN_INTERVAL_MS - elapsed))] \<rparr>
                   else send_request k normalizedId
                          (S\<lparr> api := st\<lparr> lastMoreInfoRequestTime := now st \<rparr>,
                              calls := calls S @ [FirstRequest normalizedId] \<rparr>)))"

text \<open>
  The call resumes after a timer, which runs at its due time or later: after the
  throttle wait it records the time and sends the first request, after the retry wait
  it sends the retry. Neither looks at the cache or the lock again.
\<close>

definition fetchMoreInfo_after_timer :: "nat \<Rightarrow> run_state \<Rightarrow> run_state" where
  "fetchMoreInfo_after_timer k S =
     (if k < length (calls S)
      then (case calls S ! k of
              ThrottleWait normalizedId due \<Rightarrow>
                if due \<le> now (api S)
                then send_request k normalizedId
                       (S\<lparr> api := (api S)\<lparr> lastMoreInfoRequestTime := now (api S) \<rparr>,
                           calls := (calls S)[k := FirstRequest normalizedId] \<rparr>)
                else S
            | RetryWait normalizedId due \<Rightarrow>
                if due \<le> now (api S)
                then send_request k normalizedId
                       (S\<lparr> calls := (calls S)[k := RetryRequest normalizedId] \<rparr>)
                else S
            | _ \<Rightarrow> S)
      else S)"

text \<open>
  The call resumes after its request has settled. Prices are stored in the cache with
  the time of the answer and returned. A failure of the first request that is
  retryable engages the lock when it is a rate-limit response and starts the retry
  wait; any other failure, and every failure of the retry, is thrown.
\<close>

definition fetchMoreInfo_after_request :: "nat \<Rightarrow> response_data settled \<Rightarrow> run_state \<Rightarrow> run_state" where
  "fetchMoreInfo_after_request k out S =
     (if k < length (calls S)
      then (case calls S ! k of
              FirstRequest normalizedId \<Rightarrow>
                (case settle_request normalizedId out of
                   Inr d \<Rightarrow>
                     S\<lparr> api := store_in_cache normalizedId d (api S),
                        calls := (calls S)[k := Settled normalizedId (Inr d)] \<rparr>
                 | Inl err \<Rightarrow>
                     if isRetryableError err
                     then S\<lparr> api := (if is_rate_limit err then setApiLocked (api S) else api S),
                             calls := (calls S)[k := RetryWait normalizedId
                                                      (now (api S) + int RETRY_WAIT_MS)] \<rparr>
                     else S\<lparr> calls := (calls S)[k := Settled normalizedId (Inl err)] \<rparr>)
            | RetryRequest normalizedId \<Rightarrow>
                (case settle_request normalizedId out of
                   Inr d \<Rightarrow>
                     S\<lparr> api := store_in_cache normalizedId d (api S),
                        calls := (calls S)[k := Settled normalizedId (Inr d)] \<rparr>
                 | Inl retryErr \<Rightarrow>
                     S\<lparr> calls := (calls S)[k := Settled normalizedId (Inl retryErr)] \<rparr>)
            | _ \<Rightarrow> S)
      else S)"

fun step :: "run_state \<Rightarrow> event \<Rightarrow> run_state" where
  "step S (Call coinId) = fetchMoreInfo_call coinId S"
| "step S (Elapse d) = S\<lparr> api := elapse d (api S) \<rparr>"
| "step S (TimerFires k) = fetchMoreInfo_after_timer k S"
| "step S (Answer k out) = fetchMoreInfo_after_request k out S"
| "step S (Subscribe listener) = S\<lparr> api := subscribeToMoreInfoLock listener (api S) \<rparr>"
| "step S (Unsubscribe listener) = S\<lparr> api := unsubscribe listener (api S) \<rparr>"

definition run :: "event list \<Rightarrow> run_state \<Rightarrow> run_state" where
  "run evs S = foldl step S evs"

text \<open>The module as loaded at time \<open>t\<close>, with no call made yet.\<close>

definition start :: "int \<Rightarrow> run_state" where
  "start t = \<lparr> api = module_init t, calls = [], wire = [] \<rparr>"

text \<open>
  The requests that call \<open>k\<close> has sent, and the requests that a call which is not
  settled has sent by the time it is at a stage.
\<close>

definition requests_of :: "nat \<Rightarrow> run_state \<Rightarrow> string list" where
  "requests_of k S = map snd (filter (\<lambda>p. fst p = k) (wire S))"

fun sent_at :: "stage \<Rightarrow> string list option" where
  "sent_at (ThrottleWait normalizedId due) = Some []"
| "sent_at (FirstRequest normalizedId) = Some [normalizedId]"
| "sent_at (RetryWait normalizedId due) = Some [normalizedId]"
| "sent_at (RetryRequest normalizedId) = Some [normalizedId, normalizedId]"
| "sent_at (Settled normalizedId result) = None"

text \<open>An answer that is a rate-limit response.\<close>

fun rate_limited :: "event \<Rightarrow> bool" where
  "rate_limited (Answer k (Rejected (Axios e))) = (status e = Some 429)"
| "rate_limited _ = False"

text \<open>
  The events of one call that runs from its call to its return with nothing else in
  between, the network answering the first request with \<open>r1\<close> and the retry with \<open>r2\<close>:
  every timer fires when it is due and every answer arrives after its latency.
\<close>

definition alone :: "string \<Rightarrow> reply \<Rightarrow> reply \<Rightarrow> run_state \<Rightarrow> event list" where
  "alone coinId r1 r2 S =
     (let st = api S;
          normalizedId = toLowerCase (trim coinId);
          k = length (calls S);
          elapsed = now st - lastMoreInfoRequestTime st
      in Call coinId #
         (if cached_valid st normalizedId \<noteq> None \<or> (isApiLocked st \<and> now st < lockEndTime st)
          then []
          else (if elapsed < MORE_INFO_MIN_INTERVAL_MS
                then [Elapse (nat (MORE_INFO_MIN_INTERVAL_MS - elapsed)), TimerFires k]
                else [])
               @ [Elapse (latency r1), Answer k (outcome r1)]
               @ (case settle_request normalizedId (outcome r1) of
                    Inr d \<Rightarrow> []
                  | Inl err \<Rightarrow>
                      if isRetryableError err
                      then [Elapse RETRY_WAIT_MS, TimerFires k,
                            Elapse (latency r2), Answer k (outcome r2)]
                      else [])))"

subsection \<open>Replies used in the examples\<close>

definition reply_rate_limited :: reply where
  "reply_rate_limited =
     \<lparr> latency = 100,
       outcome = Rejected (Axios \<lparr> status = Some 429, code = Some ''ERR_BAD_REQUEST'',
                                  message = ''Request failed with status code 429'' \<rparr>) \<rparr>"

definition reply_offline :: reply where
  "reply_offline =
     \<lparr> latency = 100,
       outcome = Rejected (Axios \<lparr> status = None, code = Some ''ERR_NETWORK'',
                                  message = ''Network Error'' \<rparr>) \<rparr>"

definition reply_not_object :: reply where
  "reply_not_object = \<lparr> latency = 100, outcome = Resolved NotAnObject \<rparr>"

definition btc_prices :: prices where
  "btc_prices = \<lparr> usd = Finite 50000, eur = Finite 46000, ils = Finite 0 \<rparr>"

definition reply_btc :: reply where
  "reply_btc =
     \<lparr> latency = 100,
       outcome = Resolved (Body [''btc'' \<mapsto>
                   \<lparr> raw_usd = Some (Finite 50000), raw_eur = Some (Finite 46000),
                     raw_ils = None \<rparr>]) \<rparr>"

definition rate_limit_error :: axios_error where
  "rate_limit_error = \<lparr> status = Some 429, code = Some ''ERR_BAD_REQUEST'',
                          message = ''Request failed with status code 429'' \<rparr>"

definition eth_body :: response_data where
  "eth_body = Body [''ethereum'' \<mapsto>
                 \<lparr> raw_usd = Some (Finite 3000), raw_eur = Some (Finite 2800),
                   raw_ils = Some (Finite 11000) \<rparr>]"

section \<open>Properties of the favorites store\<close>

lemma toggleFavorite_ids:
  "selectedIds (toggleFavorite c s) =
     (if c \<in> set (selectedIds s) then filter (\<lambda>i. i \<noteq> c) (selectedIds s)
      else if length (selectedIds s) < 5 then selectedIds s @ [c]
      else selectedIds s)"
  by (simp add: toggleFavorite_def MAX_FAVORITES_def)

lemma replaceFavorite_ids:
  "selectedIds (replaceFavorite r a s) =
     (if a \<notin> set (filter (\<lambda>i. i \<noteq> r) (selectedIds s))
         \<and> length (filter (\<lambda>i. i \<noteq> r) (selectedIds s)) < 5
      then filter (\<lambda>i. i \<noteq> r) (selectedIds s) @ [a]
      else filter (\<lambda>i. i \<noteq> r) (selectedIds s))"
  by (simp add: replaceFavorite_def MAX_FAVORITES_def Let_def)

lemma filter_neq_length_le: "length (filter (\<lambda>i. i \<noteq> r) xs) \<le> length xs"
  by simp

lemma count_list_removeAll_other:
  "a \<noteq> r \<Longrightarrow> count_list (removeAll r xs) a = count_list xs a"
  by (induction xs) auto

lemma toggleFavorite_inv:
  assumes "favorites_inv s"
  shows "favorites_inv (toggleFavorite c s)"
proof -
  have "length (filter (\<lambda>i. i \<noteq> c) (selectedIds s)) \<le> length (selectedIds s)"
    by simp
  with assms show ?thesis
    unfolding favorites_inv_def toggleFavorite_ids MAX_FAVORITES_def
    by (auto simp del: length_filter_le)
qed

lemma replaceFavorite_inv:
  assumes "favorites_inv s"
  shows "favorites_inv (replaceFavorite r a s)"
proof -
  have "length (filter (\<lambda>i. i \<noteq> r) (selectedIds s)) \<le> length (selectedIds s)"
    by simp
  with assms show ?thesis
    unfolding favorites_inv_def replaceFavorite_ids MAX_FAVORITES_def
    by (auto simp del: length_filter_le)
qed

lemma reducer_inv: "favorites_inv s \<Longrightarrow> favorites_inv (reducer s a)"
  by (cases a) (simp_all add: toggleFavorite_inv replaceFavorite_inv)

lemma dispatch_all_inv: "favorites_inv s \<Longrightarrow> favorites_inv (dispatch_all acts s)"
  unfolding dispatch_all_def
  by (induction acts arbitrary: s) (simp_all add: reducer_inv)

text \<open>
  One action leaves the members other than its removal target as they were, in the
  same order, and puts nothing or the identifier it inserts behind them.
\<close>

lemma reducer_appends:
  "\<exists>ys. selectedIds (reducer s a) =
          filter (\<lambda>i. i \<noteq> removal_target a) (selectedIds s) @ ys
        \<and> (ys = [] \<or> ys = [inserted_id a])"
proof (cases a)
  case (ToggleFavorite c)
  have "c \<notin> set (selectedIds s) \<Longrightarrow> filter (\<lambda>i. i \<noteq> c) (selectedIds s) = selectedIds s"
    by (auto simp: filter_id_conv)
  with ToggleFavorite show ?thesis
    by (auto simp: toggleFavorite_ids)
next
  case (ReplaceFavorite r b)
  then show ?thesis
    by (auto simp: replaceFavorite_ids)
qed

lemma reducer_shape:
  "\<exists>ys. selectedIds (reducer s a) =
          filter (\<lambda>i. i \<noteq> removal_target a) (selectedIds s) @ ys \<and> length ys \<le> 1"
  using reducer_appends [of s a] by auto

lemma dispatch_all_snoc: "dispatch_all (acts @ [a]) s = reducer (dispatch_all acts s) a"
  by (simp add: dispatch_all_def)

lemma dispatch_all_insertion_order:
  "subseq (selectedIds (dispatch_all acts s)) (selectedIds s @ map inserted_id acts)"
proof (induction acts rule: rev_induct)
  case Nil
  then show ?case by (simp add: dispatch_all_def)
next
  case (snoc a acts)
  let ?old = "selectedIds (dispatch_all acts s)"
  obtain ys where new: "selectedIds (reducer (dispatch_all acts s) a) =
      filter (\<lambda>i. i \<noteq> removal_target a) ?old @ ys"
    and ys: "ys = [] \<or> ys = [inserted_id a]"
    using reducer_appends by blast
  have "subseq (filter (\<lambda>i. i \<noteq> removal_target a) ?old) ?old"
    by simp
  then have kept: "subseq (filter (\<lambda>i. i \<noteq> removal_target a) ?old)
                          (selectedIds s @ map inserted_id acts)"
    using snoc.IH subseq_order.order_trans by blast
  have "subseq ys [inserted_id a]"
    using ys by auto
  with kept have "subseq (filter (\<lambda>i. i \<noteq> removal_target a) ?old @ ys)
                         ((selectedIds s @ map inserted_id acts) @ [inserted_id a])"
    by (rule list_emb_append_mono)
  then show ?case
    by (simp add: dispatch_all_snoc new)
qed

lemma reducer_keeps_untargeted:
  assumes "removal_target a \<in> T"
  shows "prefix (filter (\<lambda>i. i \<notin> T) (selectedIds s))
                (filter (\<lambda>i. i \<notin> T) (selectedIds (reducer s a)))"
proof -
  obtain ys where ys: "selectedIds (reducer s a) =
      filter (\<lambda>i. i \<noteq> removal_target a) (selectedIds s) @ ys"
    using reducer_shape by blast
  have "filter (\<lambda>i. i \<notin> T) (filter (\<lambda>i. i \<noteq> removal_target a) (selectedIds s))
          = filter (\<lambda>i. i \<notin> T) (selectedIds s)"
    using assms by (auto intro: filter_cong)
  with ys show ?thesis by simp
qed

lemma dispatch_all_keeps_untargeted:
  assumes "removal_target ` set acts \<subseteq> T"
  shows "prefix (filter (\<lambda>i. i \<notin> T) (selectedIds s))
                (filter (\<lambda>i. i \<notin> T) (selectedIds (dispatch_all acts s)))"
  using assms unfolding dispatch_all_def
proof (induction acts arbitrary: s)
  case Nil
  then show ?case by simp
next
  case (Cons a acts)
  have "prefix (filter (\<lambda>i. i \<notin> T) (selectedIds s))
               (filter (\<lambda>i. i \<notin> T) (selectedIds (reducer s a)))"
    using Cons.prems by (simp add: reducer_keeps_untargeted)
  moreover have "prefix (filter (\<lambda>i. i \<notin> T) (selectedIds (reducer s a)))
               (filter (\<lambda>i. i \<notin> T) (selectedIds (foldl reducer (reducer s a) acts)))"
    using Cons.prems by (intro Cons.IH) simp
  ultimately show ?case
    using prefix_order.order_trans by fastforce
qed


text \<open>
  Claim C1. Starting from any state that satisfies the invariant, after every sequence
  of \<open>toggleFavorite\<close> and \<open>replaceFavorite\<close> actions the favorites list has at most
  five identifiers and holds none of them twice, and it is in insertion order:

  \<^item> the members that no action of the sequence targets for removal are still there
    in their original relative order, in front of whatever was inserted later;
  \<^item> the list is a subsequence of the initial list followed by the identifiers the
    actions insert, in the order of the actions, so a member that came in later never
    stands in front of one that came in earlier;
  \<^item> at every step of the sequence, the list after the action is the list before it
    without the action's removal target, the other members in unchanged order,
    followed by nothing or by the one identifier the action inserts: an insertion is
    always at the end.
\<close>

theorem favorites_invariant_preserved:
  assumes "favorites_inv s"
  shows "length (selectedIds (dispatch_all acts s)) \<le> 5
       \<and> distinct (selectedIds (dispatch_all acts s))
       \<and> prefix (filter (\<lambda>i. i \<notin> removal_target ` set acts) (selectedIds s))
                (filter (\<lambda>i. i \<notin> removal_target ` set acts)
                        (selectedIds (dispatch_all acts s)))
       \<and> subseq (selectedIds (dispatch_all acts s)) (selectedIds s @ map inserted_id acts)
       \<and> (\<forall>pre a post. acts = pre @ a # post \<longrightarrow>
            (\<exists>ys. selectedIds (dispatch_all (pre @ [a]) s)
                     = filter (\<lambda>i. i \<noteq> removal_target a) (selectedIds (dispatch_all pre s)) @ ys
                   \<and> (ys = [] \<or> ys = [inserted_id a])))"
proof -
  have "favorites_inv (dispatch_all acts s)"
    using assms by (rule dispatch_all_inv)
  then have "length (selectedIds (dispatch_all acts s)) \<le> 5"
        and "distinct (selectedIds (dispatch_all acts s))"
    by (simp_all add: favorites_inv_def MAX_FAVORITES_def)
  moreover have "prefix (filter (\<lambda>i. i \<notin> removal_target ` set acts) (selectedIds s))
                (filter (\<lambda>i. i \<notin> removal_target ` set acts)
                        (selectedIds (dispatch_all acts s)))"
    by (rule dispatch_all_keeps_untargeted) simp
  moreover have "subseq (selectedIds (dispatch_all acts s))
                        (selectedIds s @ map inserted_id acts)"
    by (rule dispatch_all_insertion_order)
  moreover have "\<forall>pre a post. acts = pre @ a # post \<longrightarrow>
            (\<exists>ys. selectedIds (dispatch_all (pre @ [a]) s)
                     = filter (\<lambda>i. i \<noteq> removal_target a) (selectedIds (dispatch_all pre s)) @ ys
                   \<and> (ys = [] \<or> ys = [inserted_id a]))"
    unfolding dispatch_all_snoc using reducer_appends by blast
  ultimately show ?thesis by blast
qed

text \<open>
  An example from a full list: doge is refused (the list is full), the replacement
  of eth by doge puts doge at the end, btc is toggled out, eth is toggled back in and
  lands behind doge, and ltc is refused again. The step that toggles eth back in is
  the fourth of the sequence.
\<close>

theorem favorites_invariant_preserved_witness:
  "favorites_inv \<lparr> selectedIds = [''btc'', ''eth'', ''sol'', ''ada'', ''xrp''] \<rparr>
   \<and> selectedIds (dispatch_all
        [ToggleFavorite ''doge'', ReplaceFavorite ''eth'' ''doge'', ToggleFavorite ''btc'',
         ToggleFavorite ''eth'', ReplaceFavorite ''nope'' ''ltc'']
        \<lparr> selectedIds = [''btc'', ''eth'', ''sol'', ''ada'', ''xrp''] \<rparr>)
       = [''sol'', ''ada'', ''xrp'', ''doge'', ''eth'']
   \<and> length (selectedIds (dispatch_all
        [ToggleFavorite ''doge'', ReplaceFavorite ''eth'' ''doge'', ToggleFavorite ''btc'',
         ToggleFavorite ''eth'', ReplaceFavorite ''nope'' ''ltc'']
        \<lparr> selectedIds = [''btc'', ''eth'', ''sol'', ''ada'', ''xrp''] \<rparr>)) \<le> 5
   \<and> distinct (selectedIds (dispatch_all
        [ToggleFavorite ''doge'', ReplaceFavorite ''eth'' ''doge'', ToggleFavorite ''btc'',
         ToggleFavorite ''eth'', ReplaceFavorite ''nope'' ''ltc'']
        \<lparr> selectedIds = [''btc'', ''eth'', ''sol'', ''ada'', ''xrp''] \<rparr>))
   \<and> subseq [''sol'', ''ada'', ''xrp'', ''doge'', ''eth'']
        ([''btc'', ''eth'', ''sol'', ''ada'', ''xrp'']
           @ [''doge'', ''doge'', ''btc'', ''eth'', ''ltc''])
   \<and> (\<exists>ys. selectedIds (dispatch_all
               [ToggleFavorite ''doge'', ReplaceFavorite ''eth'' ''doge'', ToggleFavorite ''btc'',
                ToggleFavorite ''eth'']
               \<lparr> selectedIds = [''btc'', ''eth'', ''sol'', ''ada'', ''xrp''] \<rparr>)
             = filter (\<lambda>i. i \<noteq> ''eth'') [''sol'', ''ada'', ''xrp'', ''doge''] @ ys
           \<and> (ys = [] \<or> ys = [''eth'']))"
proof -
  let ?s = "\<lparr> selectedIds = [''btc'', ''eth'', ''sol'', ''ada'', ''xrp''] \<rparr>"
  let ?pre = "[ToggleFavorite ''doge'', ReplaceFavorite ''eth'' ''doge'', ToggleFavorite ''btc'']"
  let ?acts = "?pre @ ToggleFavorite ''eth'' # [ReplaceFavorite ''nope'' ''ltc'']"
  have h: "favorites_inv ?s"
    by (simp add: favorites_inv_def MAX_FAVORITES_def)
  have run: "selectedIds (dispatch_all ?acts ?s) = [''sol'', ''ada'', ''xrp'', ''doge'', ''eth'']"
    by (simp add: dispatch_all_def toggleFavorite_def replaceFavorite_def MAX_FAVORITES_def)
  have before: "selectedIds (dispatch_all ?pre ?s) = [''sol'', ''ada'', ''xrp'', ''doge'']"
    by (simp add: dispatch_all_def toggleFavorite_def replaceFavorite_def MAX_FAVORITES_def)
  note inst = favorites_invariant_preserved [OF h, of ?acts]
  from inst have bounds: "length (selectedIds (dispatch_all ?acts ?s)) \<le> 5
      \<and> distinct (selectedIds (dispatch_all ?acts ?s))
      \<and> subseq (selectedIds (dispatch_all ?acts ?s)) (selectedIds ?s @ map inserted_id ?acts)"
    by blast
  from inst have "\<forall>pre a post. ?acts = pre @ a # post \<longrightarrow>
            (\<exists>ys. selectedIds (dispatch_all (pre @ [a]) ?s)
                     = filter (\<lambda>i. i \<noteq> removal_target a) (selectedIds (dispatch_all pre ?s)) @ ys
                   \<and> (ys = [] \<or> ys = [inserted_id a]))"
    by blast
  then have "\<exists>ys. selectedIds (dispatch_all (?pre @ [ToggleFavorite ''eth'']) ?s)
                     = filter (\<lambda>i. i \<noteq> removal_target (ToggleFavorite ''eth''))
                         (selectedIds (dispatch_all ?pre ?s)) @ ys
                   \<and> (ys = [] \<or> ys = [inserted_id (ToggleFavorite ''eth'')])"
    by blast
  then have step: "\<exists>ys. selectedIds (dispatch_all
               [ToggleFavorite ''doge'', ReplaceFavorite ''eth'' ''doge'', ToggleFavorite ''btc'',
                ToggleFavorite ''eth''] ?s)
             = filter (\<lambda>i. i \<noteq> ''eth'') [''sol'', ''ada'', ''xrp'', ''doge''] @ ys
           \<and> (ys = [] \<or> ys = [''eth''])"
    unfolding before by simp
  from bounds have b: "length (selectedIds (dispatch_all ?acts ?s)) \<le> 5"
      "distinct (selectedIds (dispatch_all ?acts ?s))"
      "subseq [''sol'', ''ada'', ''xrp'', ''doge'', ''eth'']
        ([''btc'', ''eth'', ''sol'', ''ada'', ''xrp'']
           @ [''doge'', ''doge'', ''btc'', ''eth'', ''ltc''])"
    unfolding run by simp_all
  from h run b step show ?thesis
    by simp
qed

text \<open>
  Claim C7. For every state and every pair of identifiers, \<open>replaceFavorite\<close> takes
  \<open>removeId\<close> out of the list (which changes nothing when it is not a member) and then
  appends \<open>addId\<close> exactly when \<open>addId\<close> is not a member of what is left and what is
  left has fewer than five entries. So an \<open>addId\<close> that is already a member is never
  there more often afterwards than before, a list without duplicates stays without
  duplicates, and with \<open>removeId\<close> absent and five members the state is unchanged.
\<close>

theorem replaceFavorite_contract:
  "selectedIds (replaceFavorite removeId addId s) =
      removeAll removeId (selectedIds s) @
        (if addId \<notin> set (removeAll removeId (selectedIds s))
            \<and> length (removeAll removeId (selectedIds s)) < 5 then [addId] else [])
   \<and> (removeId \<notin> set (selectedIds s) \<longrightarrow>
        removeAll removeId (selectedIds s) = selectedIds s)
   \<and> (addId \<in> set (selectedIds s) \<longrightarrow>
        count_list (selectedIds (replaceFavorite removeId addId s)) addId
          \<le> count_list (selectedIds s) addId)
   \<and> (distinct (selectedIds s) \<longrightarrow> distinct (selectedIds (replaceFavorite removeId addId s)))
   \<and> (removeId \<notin> set (selectedIds s) \<and> length (selectedIds s) = 5 \<longrightarrow>
        replaceFavorite removeId addId s = s)"
proof -
  let ?ids = "selectedIds s"
  have ra: "filter (\<lambda>i. i \<noteq> removeId) ?ids = removeAll removeId ?ids"
    by (simp add: removeAll_filter_not_eq) metis
  have shape: "selectedIds (replaceFavorite removeId addId s) =
      removeAll removeId ?ids @
        (if addId \<notin> set (removeAll removeId ?ids) \<and> length (removeAll removeId ?ids) < 5
         then [addId] else [])"
    unfolding replaceFavorite_ids ra by simp
  have absent: "removeId \<notin> set ?ids \<longrightarrow> removeAll removeId ?ids = ?ids"
    by simp
  have cnt: "addId \<in> set ?ids \<longrightarrow>
      count_list (selectedIds (replaceFavorite removeId addId s)) addId \<le> count_list ?ids addId"
  proof
    assume mem: "addId \<in> set ?ids"
    then have pos: "0 < count_list ?ids addId"
      using count_list_0_iff [of ?ids addId] by auto
    show "count_list (selectedIds (replaceFavorite removeId addId s)) addId \<le> count_list ?ids addId"
    proof (cases "addId = removeId")
      case True
      have "count_list (removeAll removeId ?ids) removeId = 0"
        by (simp add: count_list_0_iff)
      with True pos show ?thesis
        unfolding shape by simp
    next
      case False
      then have "addId \<in> set (removeAll removeId ?ids)"
        using mem by simp
      moreover have "count_list (removeAll removeId ?ids) addId = count_list ?ids addId"
        using False by (rule count_list_removeAll_other)
      ultimately show ?thesis
        unfolding shape by simp
    qed
  qed
  have dist: "distinct ?ids \<longrightarrow> distinct (selectedIds (replaceFavorite removeId addId s))"
    unfolding shape by (simp add: distinct_removeAll)
  have full: "removeId \<notin> set ?ids \<and> length ?ids = 5 \<longrightarrow> replaceFavorite removeId addId s = s"
  proof
    assume a: "removeId \<notin> set ?ids \<and> length ?ids = 5"
    then have "filter (\<lambda>i. i \<noteq> removeId) ?ids = ?ids"
      by (auto simp: filter_id_conv)
    with a show "replaceFavorite removeId addId s = s"
      by (simp add: replaceFavorite_def MAX_FAVORITES_def Let_def)
  qed
  from shape absent cnt dist full show ?thesis
    by blast
qed

theorem replaceFavorite_contract_witness:
  "''zzz'' \<notin> set [''a'', ''b'', ''c'', ''d'', ''e'']
   \<and> length [''a'', ''b'', ''c'', ''d'', ''e''] = 5
   \<and> distinct [''a'', ''b'', ''c'', ''d'', ''e'']
   \<and> ''a'' \<in> set [''a'', ''b'', ''c'', ''d'', ''e'']
   \<and> replaceFavorite ''zzz'' ''a'' \<lparr> selectedIds = [''a'', ''b'', ''c'', ''d'', ''e''] \<rparr>
       = \<lparr> selectedIds = [''a'', ''b'', ''c'', ''d'', ''e''] \<rparr>
   \<and> count_list (selectedIds (replaceFavorite ''zzz'' ''a''
         \<lparr> selectedIds = [''a'', ''b'', ''c'', ''d'', ''e''] \<rparr>)) ''a'' \<le> 1
   \<and> distinct (selectedIds (replaceFavorite ''zzz'' ''a''
         \<lparr> selectedIds = [''a'', ''b'', ''c'', ''d'', ''e''] \<rparr>))"
  using replaceFavorite_contract [of "''zzz''" "''a''"
          "\<lparr> selectedIds = [''a'', ''b'', ''c'', ''d'', ''e''] \<rparr>"]
  by simp

text \<open>
  Claim C6, as the loader is written. For every persisted value, the startup load
  keeps the entries of a stored array that are strings (the empty string included),
  in their original order, and cuts the result to the first five of them; anything
  that is not an array, a missing key and a failing read or parse load as the empty
  list. The stored array a, b, c, d, e, f loads as a, b, c, d, e.
\<close>

theorem loadPersistedFavorites_strings_first_five:
  "(\<forall>parsed. p = Parsed (JArray parsed) \<longrightarrow>
       map JString (loadPersistedFavorites p) = take 5 (filter is_string parsed))
   \<and> ((\<forall>parsed. p \<noteq> Parsed (JArray parsed)) \<longrightarrow> loadPersistedFavorites p = [])
   \<and> length (loadPersistedFavorites p) \<le> 5
   \<and> loadPersistedFavorites (Parsed (JArray
        [JString ''a'', JString ''b'', JString ''c'', JString ''d'', JString ''e'',
         JString ''f''])) = [''a'', ''b'', ''c'', ''d'', ''e'']"
proof -
  have wrap: "map (JString \<circ> string_of) (filter is_string xs) = filter is_string xs" for xs
  proof (induction xs)
    case Nil
    then show ?case by simp
  next
    case (Cons x xs)
    then show ?case by (cases x) simp_all
  qed
  have arr: "\<forall>parsed. p = Parsed (JArray parsed) \<longrightarrow>
       map JString (loadPersistedFavorites p) = take 5 (filter is_string parsed)"
    by (simp add: MAX_FAVORITES_def take_map [symmetric] wrap)
  have other: "(\<forall>parsed. p \<noteq> Parsed (JArray parsed)) \<longrightarrow> loadPersistedFavorites p = []"
    by (cases p rule: loadPersistedFavorites.cases) simp_all
  have len: "length (loadPersistedFavorites p) \<le> 5"
    by (cases p rule: loadPersistedFavorites.cases) (simp_all add: MAX_FAVORITES_def)
  have ex: "loadPersistedFavorites (Parsed (JArray
        [JString ''a'', JString ''b'', JString ''c'', JString ''d'', JString ''e'',
         JString ''f''])) = [''a'', ''b'', ''c'', ''d'', ''e'']"
    by (simp add: MAX_FAVORITES_def)
  from arr other len ex show ?thesis by blast
qed

theorem loadPersistedFavorites_strings_first_five_witness:
  "map JString (loadPersistedFavorites (Parsed (JArray
       [JNumber 7, JString ''btc'', JNull, JString [], JString ''eth'', JBool True,
        JString ''sol'', JString ''ada'', JString ''xrp'', JString ''ltc''])))
     = [JString ''btc'', JString [], JString ''eth'', JString ''sol'', JString ''ada'']
   \<and> loadPersistedFavorites (Parsed (JObject [(''a'', JString ''b'')])) = []"
  using loadPersistedFavorites_strings_first_five [of "Parsed (JArray
       [JNumber 7, JString ''btc'', JNull, JString [], JString ''eth'', JBool True,
        JString ''sol'', JString ''ada'', JString ''xrp'', JString ''ltc''])"]
    loadPersistedFavorites_strings_first_five [of "Parsed (JObject [(''a'', JString ''b'')])"]
  by simp

text \<open>
  The persisted array holding the empty string and a loads with the empty string
  still in it: an entry that is a string but not a non-empty one is not discarded.
\<close>

theorem loadPersistedFavorites_keeps_empty_string:
  "loadPersistedFavorites (Parsed (JArray [JString [], JString ''a''])) = [[], ''a'']"
  by (simp add: MAX_FAVORITES_def)

section \<open>Properties of the poller\<close>

lemma drop_drop_append:
  "k \<le> length xs \<Longrightarrow> drop j (drop k xs @ ys) = drop (j + k) (xs @ ys)"
  by (simp add: add.commute)

lemma append_trimmed_eq:
  "append_trimmed h p = drop (length h + 1 - 30) (h @ [p])"
  by (simp add: append_trimmed_def MAX_DATA_POINTS_def Let_def)

lemma length_append_trimmed:
  "length (append_trimmed h p) = min (length h + 1) 30"
  unfolding append_trimmed_eq by simp

lemma fetchAndAppend_resolved:
  assumes "favoriteIds \<noteq> []"
  shows "fetchAndAppend favoriteIds coins (Resolved entries) time st =
           st\<lparr> error := None,
               priceHistory := append_trimmed (priceHistory st)
                  (build_point favoriteIds coins (collect_quotes entries) time),
               loading := False \<rparr>"
  using assms by (simp add: fetchAndAppend_def fetchPricesUsdCryptoCompare_def Let_def)

lemma fetchPrices_rejected:
  assumes "symbols \<noteq> []"
  shows "\<exists>e. fetchPricesUsdCryptoCompare symbols (Rejected err) = Inl e"
  using assms
  by (simp add: fetchPricesUsdCryptoCompare_def split: thrown.splits)

lemma fetchAndAppend_rejected:
  assumes "favoriteIds \<noteq> []"
  shows "\<exists>e. fetchPricesUsdCryptoCompare (map (symbol_for coins) favoriteIds) (Rejected err) = Inl e
           \<and> fetchAndAppend favoriteIds coins (Rejected err) time st =
               st\<lparr> error := Some (error_text e), loading := False \<rparr>"
proof -
  obtain e where e: "fetchPricesUsdCryptoCompare (map (symbol_for coins) favoriteIds) (Rejected err) = Inl e"
    using fetchPrices_rejected [of "map (symbol_for coins) favoriteIds" err] assms by auto
  then have "fetchAndAppend favoriteIds coins (Rejected err) time st =
               st\<lparr> error := Some (error_text e), loading := False \<rparr>"
    using assms by (simp add: fetchAndAppend_def Let_def)
  with e show ?thesis by blast
qed

lemma run_tick_ok:
  assumes "tick_ok t"
  shows "priceHistory (run_tick st t) = append_trimmed (priceHistory st) (tick_point t)"
proof -
  from assms obtain entries where r: "tick_response t = Resolved entries" and f: "tick_favorites t \<noteq> []"
    by (auto simp: tick_ok_def split: settled.splits)
  show ?thesis
    unfolding run_tick_def r tick_point_def
    by (simp add: fetchAndAppend_resolved [OF f])
qed

lemma run_ticks_history:
  assumes "\<forall>t \<in> set ts. tick_ok t" and "length (priceHistory st) \<le> 30"
  shows "priceHistory (run_ticks ts st) =
           drop (length (priceHistory st) + length ts - 30) (priceHistory st @ map tick_point ts)"
  using assms
proof (induction ts rule: rev_induct)
  case Nil
  then show ?case by (simp add: run_ticks_def)
next
  case (snoc t ts)
  let ?h = "priceHistory st"
  let ?H = "priceHistory (run_ticks ts st)"
  have IH: "?H = drop (length ?h + length ts - 30) (?h @ map tick_point ts)"
    using snoc by simp
  have step: "priceHistory (run_ticks (ts @ [t]) st) = append_trimmed ?H (tick_point t)"
    using snoc.prems by (simp add: run_ticks_def run_tick_ok)
  have k: "length ?h + length ts - 30 \<le> length (?h @ map tick_point ts)"
    by simp
  have len: "length ?H = min (length ?h + length ts) 30"
    unfolding IH by simp
  have "append_trimmed ?H (tick_point t) = drop (length ?H + 1 - 30) (?H @ [tick_point t])"
    by (rule append_trimmed_eq)
  also have "\<dots> = drop (length ?H + 1 - 30 + (length ?h + length ts - 30))
                     ((?h @ map tick_point ts) @ [tick_point t])"
    unfolding IH [symmetric]
    by (subst IH) (rule drop_drop_append [OF k])
  also have "length ?H + 1 - 30 + (length ?h + length ts - 30) = length ?h + length (ts @ [t]) - 30"
    unfolding len by simp
  finally show ?case
    unfolding step by simp
qed


lemma foldl_set_property_lookup:
  "foldl (\<lambda>pt c. set_property c (f c) pt) m ids k =
     (if k \<in> set ids \<and> k \<noteq> ''__proto__'' then Some (f k) else m k)"
  by (induction ids arbitrary: m) (auto simp: set_property_def)

lemma build_point_lookup:
  "build_point favoriteIds coins prices time k =
     (if k \<in> set favoriteIds \<and> k \<noteq> ''__proto__''
      then Some (Price (case prices (symbol_for coins k) of Some v \<Rightarrow> v | None \<Rightarrow> Finite 0))
      else [''time'' \<mapsto> Label time] k)"
  unfolding build_point_def by (rule foldl_set_property_lookup)

lemma collect_quotes_step_None:
  "foldl (\<lambda>out (sym, usd). case usd of Some v \<Rightarrow> out(toUpperCase sym \<mapsto> v) | None \<Rightarrow> out)
         m entries k = None
   \<longleftrightarrow> m k = None \<and> (\<forall>(s, usd) \<in> set entries. toUpperCase s = k \<longrightarrow> usd = None)"
  by (induction entries arbitrary: m) (auto split: option.splits if_splits)

lemma collect_quotes_None:
  "collect_quotes entries k = None
   \<longleftrightarrow> (\<forall>(s, usd) \<in> set entries. toUpperCase s = k \<longrightarrow> usd = None)"
  unfolding collect_quotes_def by (simp add: collect_quotes_step_None)

text \<open>
  Claim C5. A run of the poller with favorites selected: when the batched request is
  answered, exactly one point is put at the end of the history and the result is cut
  to its last 30 points, so its length is the smaller of the old length plus one and
  30; when the request fails, the error text is recorded and the history is the same
  as before. Over any number of successful ticks from a history of at most 30 points
  the history is the last 30 of the old points followed by the new ones; after 31
  successful ticks from the empty history it has exactly 30 points, the first point
  being the one that was dropped.
\<close>

theorem poller_history_bounded:
  "(favoriteIds \<noteq> [] \<longrightarrow>
      priceHistory (fetchAndAppend favoriteIds coins (Resolved entries) time st)
        = drop (length (priceHistory st) + 1 - 30)
               (priceHistory st @ [build_point favoriteIds coins (collect_quotes entries) time])
      \<and> length (priceHistory (fetchAndAppend favoriteIds coins (Resolved entries) time st))
        = min (length (priceHistory st) + 1) 30
      \<and> priceHistory (fetchAndAppend favoriteIds coins (Rejected err) time st) = priceHistory st
      \<and> (\<exists>e. fetchPricesUsdCryptoCompare (map (symbol_for coins) favoriteIds) (Rejected err) = Inl e
             \<and> error (fetchAndAppend favoriteIds coins (Rejected err) time st)
                 = Some (error_text e)))
   \<and> ((\<forall>t \<in> set ts. tick_ok t) \<and> length (priceHistory st) \<le> 30 \<longrightarrow>
        priceHistory (run_ticks ts st)
          = drop (length (priceHistory st) + length ts - 30)
                 (priceHistory st @ map tick_point ts)
        \<and> length (priceHistory (run_ticks ts st)) \<le> 30)
   \<and> ((\<forall>t \<in> set ts. tick_ok t) \<and> priceHistory st = [] \<and> length ts = 31 \<longrightarrow>
        length (priceHistory (run_ticks ts st)) = 30
        \<and> priceHistory (run_ticks ts st) = tl (map tick_point ts))"
proof -
  have one: "favoriteIds \<noteq> [] \<longrightarrow>
      priceHistory (fetchAndAppend favoriteIds coins (Resolved entries) time st)
        = drop (length (priceHistory st) + 1 - 30)
               (priceHistory st @ [build_point favoriteIds coins (collect_quotes entries) time])
      \<and> length (priceHistory (fetchAndAppend favoriteIds coins (Resolved entries) time st))
        = min (length (priceHistory st) + 1) 30
      \<and> priceHistory (fetchAndAppend favoriteIds coins (Rejected err) time st) = priceHistory st
      \<and> (\<exists>e. fetchPricesUsdCryptoCompare (map (symbol_for coins) favoriteIds) (Rejected err) = Inl e
             \<and> error (fetchAndAppend favoriteIds coins (Rejected err) time st)
                 = Some (error_text e))"
  proof
    assume f: "favoriteIds \<noteq> []"
    have ok: "priceHistory (fetchAndAppend favoriteIds coins (Resolved entries) time st)
        = append_trimmed (priceHistory st)
            (build_point favoriteIds coins (collect_quotes entries) time)"
      by (simp add: fetchAndAppend_resolved [OF f])
    obtain e where e: "fetchPricesUsdCryptoCompare (map (symbol_for coins) favoriteIds) (Rejected err) = Inl e"
      and r: "fetchAndAppend favoriteIds coins (Rejected err) time st =
               st\<lparr> error := Some (error_text e), loading := False \<rparr>"
      using fetchAndAppend_rejected [OF f] by blast
    have "priceHistory (fetchAndAppend favoriteIds coins (Rejected err) time st) = priceHistory st"
      and "error (fetchAndAppend favoriteIds coins (Rejected err) time st) = Some (error_text e)"
      unfolding r by simp_all
    with ok e show "priceHistory (fetchAndAppend favoriteIds coins (Resolved entries) time st)
        = drop (length (priceHistory st) + 1 - 30)
               (priceHistory st @ [build_point favoriteIds coins (collect_quotes entries) time])
      \<and> length (priceHistory (fetchAndAppend favoriteIds coins (Resolved entries) time st))
        = min (length (priceHistory st) + 1) 30
      \<and> priceHistory (fetchAndAppend favoriteIds coins (Rejected err) time st) = priceHistory st
      \<and> (\<exists>e. fetchPricesUsdCryptoCompare (map (symbol_for coins) favoriteIds) (Rejected err) = Inl e
             \<and> error (fetchAndAppend favoriteIds coins (Rejected err) time st)
                 = Some (error_text e))"
      using append_trimmed_eq length_append_trimmed by metis
  qed
  have many: "(\<forall>t \<in> set ts. tick_ok t) \<and> length (priceHistory st) \<le> 30 \<longrightarrow>
        priceHistory (run_ticks ts st)
          = drop (length (priceHistory st) + length ts - 30)
                 (priceHistory st @ map tick_point ts)
        \<and> length (priceHistory (run_ticks ts st)) \<le> 30"
  proof
    assume a: "(\<forall>t \<in> set ts. tick_ok t) \<and> length (priceHistory st) \<le> 30"
    then have h: "priceHistory (run_ticks ts st)
          = drop (length (priceHistory st) + length ts - 30)
                 (priceHistory st @ map tick_point ts)"
      by (simp add: run_ticks_history)
    have "length (priceHistory (run_ticks ts st)) \<le> 30"
      unfolding h by simp
    with h show "priceHistory (run_ticks ts st)
          = drop (length (priceHistory st) + length ts - 30)
                 (priceHistory st @ map tick_point ts)
        \<and> length (priceHistory (run_ticks ts st)) \<le> 30"
      by simp
  qed
  have thirty_one: "(\<forall>t \<in> set ts. tick_ok t) \<and> priceHistory st = [] \<and> length ts = 31 \<longrightarrow>
        length (priceHistory (run_ticks ts st)) = 30
        \<and> priceHistory (run_ticks ts st) = tl (map tick_point ts)"
  proof
    assume a: "(\<forall>t \<in> set ts. tick_ok t) \<and> priceHistory st = [] \<and> length ts = 31"
    then have h: "priceHistory (run_ticks ts st) = drop 1 (map tick_point ts)"
      using run_ticks_history [of ts st] by simp
    then have "length (priceHistory (run_ticks ts st)) = 30"
      using a by simp
    with h show "length (priceHistory (run_ticks ts st)) = 30
        \<and> priceHistory (run_ticks ts st) = tl (map tick_point ts)"
      by (simp add: drop_Suc)
  qed
  from one many thirty_one show ?thesis
    by (intro conjI)
qed

lemma upper_examples:
  "toUpperCase ''btc'' = ''BTC''" "toUpperCase ''eth'' = ''ETH''"
  "toUpperCase ''doge'' = ''DOGE''"
  "toUpperCase ''BTC'' = ''BTC''" "toUpperCase ''ETH'' = ''ETH''"
  "toUpperCase ''xbt'' = ''XBT''" "toUpperCase ''XBT'' = ''XBT''"
  "toUpperCase ''__proto__'' = ''__PROTO__''" "toUpperCase ''__PROTO__'' = ''__PROTO__''"
  by (simp_all add: toUpperCase_def upper_char_def)

theorem poller_history_bounded_witness:
  "[''btc'', ''eth''] \<noteq> []
   \<and> tick_ok \<lparr> tick_favorites = [''btc'', ''eth''], tick_coins = [],
            tick_response = Resolved [(''BTC'', Some (Finite 50000)), (''ETH'', Some (Finite 3000))],
            tick_time = ''12:00:00'' \<rparr>
   \<and> length (priceHistory (fetchAndAppend [''btc'', ''eth''] []
          (Resolved [(''BTC'', Some (Finite 50000)), (''ETH'', Some (Finite 3000))]) ''12:00:00''
          \<lparr> priceHistory = [], loading = True, error = None \<rparr>)) = 1
   \<and> hd (priceHistory (fetchAndAppend [''btc'', ''eth''] []
          (Resolved [(''BTC'', Some (Finite 50000)), (''ETH'', Some (Finite 3000))]) ''12:00:00''
          \<lparr> priceHistory = [], loading = True, error = None \<rparr>)) ''btc'' = Some (Price (Finite 50000))
   \<and> hd (priceHistory (fetchAndAppend [''btc'', ''eth''] []
          (Resolved [(''BTC'', Some (Finite 50000)), (''ETH'', Some (Finite 3000))]) ''12:00:00''
          \<lparr> priceHistory = [], loading = True, error = None \<rparr>)) ''eth'' = Some (Price (Finite 3000))
   \<and> priceHistory (fetchAndAppend [''btc'', ''eth''] []
          (Rejected (Axios \<lparr> status = Some 429, code = None, message = ''Request failed'' \<rparr>)) ''12:00:00''
          \<lparr> priceHistory = [], loading = True, error = None \<rparr>) = []
   \<and> error (fetchAndAppend [''btc'', ''eth''] []
          (Rejected (Axios \<lparr> status = Some 429, code = None, message = ''Request failed'' \<rparr>)) ''12:00:00''
          \<lparr> priceHistory = [], loading = True, error = None \<rparr>)
        = Some ''Too many requests (rate limit). Try again in a moment.''
   \<and> length (priceHistory (run_ticks
          (replicate 31 \<lparr> tick_favorites = [''btc'', ''eth''], tick_coins = [],
            tick_response = Resolved [(''BTC'', Some (Finite 50000)), (''ETH'', Some (Finite 3000))],
            tick_time = ''12:00:00'' \<rparr>)
          \<lparr> priceHistory = [], loading = True, error = None \<rparr>)) = 30"
  using poller_history_bounded [of "[''btc'', ''eth'']" "[]"
          "[(''BTC'', Some (Finite 50000)), (''ETH'', Some (Finite 3000))]" "''12:00:00''"
          "\<lparr> priceHistory = [], loading = True, error = None \<rparr>"
          "Axios \<lparr> status = Some 429, code = None, message = ''Request failed'' \<rparr>"
          "replicate 31 \<lparr> tick_favorites = [''btc'', ''eth''], tick_coins = [],
            tick_response = Resolved [(''BTC'', Some (Finite 50000)), (''ETH'', Some (Finite 3000))],
            tick_time = ''12:00:00'' \<rparr>"]
  by (simp add: tick_ok_def build_point_def set_property_def collect_quotes_def symbol_for_def
        upper_examples fetchPricesUsdCryptoCompare_def error_text_def)


text \<open>
  The keys that the poller writes into and reads from the record of quotes are
  upper-cased symbols. An upper-cased string holds none of the letters a to z, so it
  is never \<open>__proto__\<close> nor the name of anything else that a plain object inherits:
  on these keys the record behaves as the map that \<open>collect_quotes\<close> builds.
\<close>

lemma upper_char_not_lower: "upper_char c \<notin> set ''abcdefghijklmnopqrstuvwxyz''"
proof -
  define lo where "lo = ''abcdefghijklmnopqrstuvwxyz''"
  define up where "up = ''ABCDEFGHIJKLMNOPQRSTUVWXYZ''"
  have len: "length lo = length up"
    by (simp add: lo_def up_def)
  have disj: "u \<in> set up \<Longrightarrow> u \<notin> set lo" for u
    unfolding lo_def up_def by auto
  have "(case map_of (zip lo up) c of Some u \<Rightarrow> u | None \<Rightarrow> c) \<notin> set lo"
  proof (cases "map_of (zip lo up) c")
    case None
    then have "c \<notin> set lo"
      using map_of_zip_is_None [OF len] by blast
    with None show ?thesis
      by simp
  next
    case (Some u)
    then have "(c, u) \<in> set (zip lo up)"
      by (rule map_of_SomeD)
    then have "u \<in> set up"
      by (rule set_zip_rightD)
    then have "u \<notin> set lo"
      by (rule disj)
    with Some show ?thesis
      by simp
  qed
  then show ?thesis
    unfolding upper_char_def lo_def up_def .
qed

lemma toUpperCase_no_lower:
  assumes "c \<in> set (toUpperCase s)"
  shows "c \<notin> set ''abcdefghijklmnopqrstuvwxyz''"
proof -
  from assms obtain b where c: "c = upper_char b"
    unfolding toUpperCase_def by auto
  show ?thesis
    unfolding c by (rule upper_char_not_lower)
qed

lemma toUpperCase_not_proto: "toUpperCase s \<noteq> ''__proto__''"
proof
  assume "toUpperCase s = ''__proto__''"
  then have "CHR ''p'' \<in> set (toUpperCase s)"
    by simp
  then have "CHR ''p'' \<notin> set ''abcdefghijklmnopqrstuvwxyz''"
    by (rule toUpperCase_no_lower)
  then show False
    by simp
qed

text \<open>
  What the point appended by a successful run holds. For every identifier of the
  favorites list other than \<open>__proto__\<close> it has an entry: the price that the response
  gives for the upper-cased symbol of the first coin of the list with that
  identifier, or for the upper-cased identifier itself when the list has no such
  coin, and the price 0 when the response has no value for that symbol. For
  \<open>__proto__\<close> it has no entry, whether or not \<open>__proto__\<close> is a favorite.
\<close>

lemma poller_point_entries:
  assumes "favoriteIds \<noteq> []"
  shows "priceHistory (fetchAndAppend favoriteIds coins (Resolved entries) time st) \<noteq> []"
    and "coinId \<in> set favoriteIds \<Longrightarrow> coinId \<noteq> ''__proto__'' \<Longrightarrow>
         find (\<lambda>item. coin_id item = coinId) coins = Some c \<Longrightarrow>
         last (priceHistory (fetchAndAppend favoriteIds coins (Resolved entries) time st)) coinId
           = Some (Price (case collect_quotes entries (toUpperCase (coin_symbol c)) of
                            Some v \<Rightarrow> v | None \<Rightarrow> Finite 0))"
    and "coinId \<in> set favoriteIds \<Longrightarrow> coinId \<noteq> ''__proto__'' \<Longrightarrow>
         find (\<lambda>item. coin_id item = coinId) coins = None \<Longrightarrow>
         last (priceHistory (fetchAndAppend favoriteIds coins (Resolved entries) time st)) coinId
           = Some (Price (case collect_quotes entries (toUpperCase coinId) of
                            Some v \<Rightarrow> v | None \<Rightarrow> Finite 0))"
    and "coinId \<in> set favoriteIds \<Longrightarrow> coinId \<noteq> ''__proto__'' \<Longrightarrow>
         \<forall>(s, usd) \<in> set entries. toUpperCase s = symbol_for coins coinId \<longrightarrow> usd = None \<Longrightarrow>
         last (priceHistory (fetchAndAppend favoriteIds coins (Resolved entries) time st)) coinId
           = Some (Price (Finite 0))"
    and "last (priceHistory (fetchAndAppend favoriteIds coins (Resolved entries) time st))
           ''__proto__'' = None"
proof -
  let ?pt = "build_point favoriteIds coins (collect_quotes entries) time"
  let ?h = "priceHistory (fetchAndAppend favoriteIds coins (Resolved entries) time st)"
  have h: "?h = drop (length (priceHistory st) + 1 - 30) (priceHistory st @ [?pt])"
    by (simp add: fetchAndAppend_resolved [OF assms(1)] append_trimmed_eq)
  show "?h \<noteq> []"
    unfolding h by simp
  have "last ?h = last (priceHistory st @ [?pt])"
    unfolding h by (rule last_drop) simp
  then have l: "last ?h = ?pt"
    by simp
  show "last ?h coinId
           = Some (Price (case collect_quotes entries (toUpperCase (coin_symbol c)) of
                            Some v \<Rightarrow> v | None \<Rightarrow> Finite 0))"
    if "coinId \<in> set favoriteIds" "coinId \<noteq> ''__proto__''"
       "find (\<lambda>item. coin_id item = coinId) coins = Some c"
    using that unfolding l by (simp add: build_point_lookup symbol_for_def)
  show "last ?h coinId
           = Some (Price (case collect_quotes entries (toUpperCase coinId) of
                            Some v \<Rightarrow> v | None \<Rightarrow> Finite 0))"
    if "coinId \<in> set favoriteIds" "coinId \<noteq> ''__proto__''"
       "find (\<lambda>item. coin_id item = coinId) coins = None"
    using that unfolding l by (simp add: build_point_lookup symbol_for_def)
  show "last ?h coinId = Some (Price (Finite 0))"
    if m: "coinId \<in> set favoriteIds" "coinId \<noteq> ''__proto__''"
       and n: "\<forall>(s, usd) \<in> set entries. toUpperCase s = symbol_for coins coinId \<longrightarrow> usd = None"
  proof -
    from n have "collect_quotes entries (symbol_for coins coinId) = None"
      by (simp only: collect_quotes_None)
    with m show ?thesis
      unfolding l by (simp add: build_point_lookup)
  qed
  show "last ?h ''__proto__'' = None"
    unfolding l by (simp add: build_point_lookup)
qed

text \<open>
  Claim C10 says that every point appended by the poller has an entry for every
  identifier of the favorites list, with the price 0 where the response has no value
  for the identifier's symbol. The run below has the favorites btc, doge and
  \<open>__proto__\<close>, a coin list that gives btc the symbol xbt, and a response with a
  price for XBT and for \<open>__PROTO__\<close>. The appended point has the entry for btc (the
  price of XBT) and the entry for doge (the price 0, nothing being quoted for DOGE),
  and it has no entry for the favorite \<open>__proto__\<close>: that identifier is left out of the
  point.
\<close>

theorem poller_point_leaves_out_proto:
  "last (priceHistory (fetchAndAppend [''btc'', ''doge'', ''__proto__'']
          [\<lparr> coin_id = ''btc'', coin_symbol = ''xbt'' \<rparr>]
          (Resolved [(''XBT'', Some (Finite 50000)), (''__PROTO__'', Some (Finite 7))])
          ''12:00:00'' \<lparr> priceHistory = [], loading = True, error = None \<rparr>)) ''btc''
     = Some (Price (Finite 50000))
   \<and> last (priceHistory (fetchAndAppend [''btc'', ''doge'', ''__proto__'']
          [\<lparr> coin_id = ''btc'', coin_symbol = ''xbt'' \<rparr>]
          (Resolved [(''XBT'', Some (Finite 50000)), (''__PROTO__'', Some (Finite 7))])
          ''12:00:00'' \<lparr> priceHistory = [], loading = True, error = None \<rparr>)) ''doge''
     = Some (Price (Finite 0))
   \<and> ''__proto__'' \<in> set [''btc'', ''doge'', ''__proto__'']
   \<and> last (priceHistory (fetchAndAppend [''btc'', ''doge'', ''__proto__'']
          [\<lparr> coin_id = ''btc'', coin_symbol = ''xbt'' \<rparr>]
          (Resolved [(''XBT'', Some (Finite 50000)), (''__PROTO__'', Some (Finite 7))])
          ''12:00:00'' \<lparr> priceHistory = [], loading = True, error = None \<rparr>)) ''__proto__''
     = None"
  by (simp add: fetchAndAppend_def fetchPricesUsdCryptoCompare_def append_trimmed_def
        MAX_DATA_POINTS_def build_point_def set_property_def collect_quotes_def symbol_for_def
        upper_examples Let_def)

section \<open>Properties of the number formatting and the prompt\<close>

lemma decimal_lt10: "n < 10 \<Longrightarrow> decimal n = [digit_char n]"
  by (subst decimal.simps) simp

lemma decimal_ge10: "10 \<le> n \<Longrightarrow> decimal n = decimal (n div 10) @ [digit_char (n mod 10)]"
  by (subst decimal.simps) simp

lemma digit_char_digit: "digit_char d \<in> set ''0123456789''"
proof -
  have "d mod 10 < length ''0123456789''" by simp
  then show ?thesis
    unfolding digit_char_def by (rule nth_mem)
qed

lemma decimal_digits: "set (decimal n) \<subseteq> set ''0123456789''"
proof (induction n rule: decimal.induct)
  case (1 n)
  show ?case
  proof (cases "n < 10")
    case True
    then show ?thesis
      using digit_char_digit [of n] by (simp only: decimal_lt10) simp
  next
    case False
    then have "set (decimal (n div 10)) \<subseteq> set ''0123456789''"
      using "1" by simp
    moreover have "decimal n = decimal (n div 10) @ [digit_char (n mod 10)]"
      using False by (simp add: decimal_ge10)
    ultimately show ?thesis
      using digit_char_digit [of "n mod 10"] by simp
  qed
qed

lemma decimal_nonempty: "decimal n \<noteq> []"
  by (subst decimal.simps) simp

lemma decimal_two_digits:
  "10 \<le> n \<Longrightarrow> n < 100 \<Longrightarrow> decimal n = [digit_char (n div 10), digit_char (n mod 10)]"
  by (simp add: decimal_ge10 decimal_lt10)

lemma decimal_split100:
  "100 \<le> n \<Longrightarrow>
   decimal n = decimal (n div 100) @ [digit_char (n div 10 mod 10), digit_char (n mod 10)]"
proof -
  assume a: "100 \<le> n"
  then have "decimal n = decimal (n div 10) @ [digit_char (n mod 10)]"
    by (simp add: decimal_ge10)
  moreover have "decimal (n div 10) = decimal (n div 10 div 10) @ [digit_char (n div 10 mod 10)]"
    using a by (intro decimal_ge10) simp
  moreover have "n div 10 div 10 = n div 100"
    by (simp add: div_mult2_eq [symmetric])
  ultimately show ?thesis by simp
qed

lemma digit_char_0: "digit_char 0 = CHR ''0''"
  by (simp add: digit_char_def)

lemma fixed2_shape:
  "(if length (decimal n) \<le> 2 then replicate (3 - length (decimal n)) (CHR ''0'') @ decimal n
    else decimal n)
   = decimal (n div 100) @ [digit_char (n div 10 mod 10), digit_char (n mod 10)]"
proof -
  consider "n < 10" | "10 \<le> n" "n < 100" | "100 \<le> n" by linarith
  then show ?thesis
  proof cases
    case 1
    then show ?thesis
      by (simp add: decimal_lt10 digit_char_0 numeral_3_eq_3)
  next
    case 2
    then show ?thesis
      by (simp add: decimal_two_digits decimal_lt10 digit_char_0 numeral_3_eq_3)
  next
    case 3
    then show ?thesis
      using decimal_nonempty [of "n div 100"]
      by (simp add: decimal_split100)
  qed
qed

lemma toFixed2_finite:
  assumes "\<bar>x\<bar> < 10 ^ 21"
  shows "toFixed big 2 (Finite x) =
     (if x < 0 then ''-'' else []) @ decimal (nat \<lfloor>\<bar>x\<bar> * 100 + 1 / 2\<rfloor> div 100) @ ''.'' @
       [digit_char (nat \<lfloor>\<bar>x\<bar> * 100 + 1 / 2\<rfloor> div 10 mod 10),
        digit_char (nat \<lfloor>\<bar>x\<bar> * 100 + 1 / 2\<rfloor> mod 10)]"
proof -
  define n where "n = nat \<lfloor>\<bar>x\<bar> * 100 + 1 / 2\<rfloor>"
  define m where "m = (if length (decimal n) \<le> 2
      then replicate (3 - length (decimal n)) (CHR ''0'') @ decimal n else decimal n)"
  have m: "m = decimal (n div 100) @ [digit_char (n div 10 mod 10), digit_char (n mod 10)]"
    unfolding m_def by (rule fixed2_shape)
  have "toFixed big 2 (Finite x) =
      (if x < 0 then ''-'' else []) @ take (length m - 2) m @ ''.'' @ drop (length m - 2) m"
    using assms unfolding toFixed_def toFixed_real_def m_def n_def
    by (simp add: Let_def)
  also have "take (length m - 2) m = decimal (n div 100)"
    unfolding m by simp
  also have "drop (length m - 2) m = [digit_char (n div 10 mod 10), digit_char (n mod 10)]"
    unfolding m by simp
  finally show ?thesis
    unfolding n_def by simp
qed


lemma clamp_cases:
  "clampPriceForDisplay NaN = Finite 0"
  "clampPriceForDisplay NegInfinity = Finite 0"
  "clampPriceForDisplay PosInfinity = Finite 100000"
  "clampPriceForDisplay (Finite x) =
     (if x < 0 then Finite 0 else if 100000 < x then Finite 100000 else Finite x)"
  "clampPriceForDisplay NegZero = NegZero"
  by (simp_all add: clampPriceForDisplay_def MAX_PRICE_DISPLAY_def)

lemma clamp_range:
  "clampPriceForDisplay v = NegZero
   \<or> (\<exists>r. clampPriceForDisplay v = Finite r \<and> 0 \<le> r \<and> r \<le> 100000)"
  by (cases v) (simp_all add: clamp_cases)

lemma clamp_bounds:
  "\<not> isNaN (clampPriceForDisplay v)"
  "\<not> num_less (clampPriceForDisplay v) (Finite 0)"
  "\<not> num_less (Finite 100000) (clampPriceForDisplay v)"
  by (cases v; simp add: clamp_cases)+

text \<open>
  Claim C9. \<open>formatPriceForDisplay\<close> renders the clamped value, for every numeric
  input and whatever the host's formatter prints:

  \<^item> what is printed for an input is what the formatter prints for its clamped value;
  \<^item> not-a-number and every input below zero (minus infinity among them) are
    clamped to 0, so they render as 0 does;
  \<^item> every input above 100,000 (plus infinity among them) is clamped to 100,000, so
    it renders as 100,000 does;
  \<^item> every input from 0 to 100,000 is its own clamped value and is rendered as
    itself; so is the negative zero, which is not below zero;
  \<^item> so the value that is rendered is never not-a-number, never below zero and
    never above 100,000;
  \<^item> with a formatter that prints 0 as \<open>0\<close> and 100,000 as \<open>100,000\<close>, as the one
    for \<open>en-US\<close> does, the first group is printed \<open>0\<close> and the second \<open>100,000\<close>.

  The lines for the current price, the market cap and the 24h volume in the data block
  of the prompt are built with it, so each of these three figures is the rendering of
  the clamped value, whatever was fetched.
\<close>

theorem prompt_prices_clamped:
  "formatPriceForDisplay fmt v = fmt (clampPriceForDisplay v)
   \<and> clampPriceForDisplay NaN = Finite 0
   \<and> formatPriceForDisplay fmt NaN = fmt (Finite 0)
   \<and> clampPriceForDisplay NegInfinity = Finite 0
   \<and> formatPriceForDisplay fmt NegInfinity = fmt (Finite 0)
   \<and> (x < 0 \<longrightarrow> clampPriceForDisplay (Finite x) = Finite 0
                 \<and> formatPriceForDisplay fmt (Finite x) = fmt (Finite 0))
   \<and> clampPriceForDisplay PosInfinity = Finite 100000
   \<and> formatPriceForDisplay fmt PosInfinity = fmt (Finite 100000)
   \<and> (100000 < x \<longrightarrow> clampPriceForDisplay (Finite x) = Finite 100000
                      \<and> formatPriceForDisplay fmt (Finite x) = fmt (Finite 100000))
   \<and> (0 \<le> x \<and> x \<le> 100000 \<longrightarrow> clampPriceForDisplay (Finite x) = Finite x
                      \<and> formatPriceForDisplay fmt (Finite x) = fmt (Finite x))
   \<and> clampPriceForDisplay NegZero = NegZero
   \<and> formatPriceForDisplay fmt NegZero = fmt NegZero
   \<and> (clampPriceForDisplay v = NegZero
        \<or> (\<exists>r. clampPriceForDisplay v = Finite r \<and> 0 \<le> r \<and> r \<le> 100000))
   \<and> \<not> isNaN (clampPriceForDisplay v)
   \<and> \<not> num_less (clampPriceForDisplay v) (Finite 0)
   \<and> \<not> num_less (Finite 100000) (clampPriceForDisplay v)
   \<and> (fmt (Finite 0) = ''0'' \<longrightarrow>
         formatPriceForDisplay fmt NaN = ''0'' \<and> formatPriceForDisplay fmt NegInfinity = ''0''
       \<and> (x < 0 \<longrightarrow> formatPriceForDisplay fmt (Finite x) = ''0''))
   \<and> (fmt (Finite 100000) = ''100,000'' \<longrightarrow>
         formatPriceForDisplay fmt PosInfinity = ''100,000''
       \<and> (100000 < x \<longrightarrow> formatPriceForDisplay fmt (Finite x) = ''100,000''))
   \<and> marketDataLines fmt big d ! 1
        = ''Current price (USD): $'' @ fmt (clampPriceForDisplay (currentPriceUsd d))
   \<and> marketDataLines fmt big d ! 2
        = ''Market cap (USD): $'' @ fmt (clampPriceForDisplay (marketCap d))
   \<and> marketDataLines fmt big d ! 3
        = ''24h volume (USD): $'' @ fmt (clampPriceForDisplay (totalVolume d))
   \<and> formatMarketData fmt big d = join [CHR 0x0A] (marketDataLines fmt big d)"
proof -
  have c0: "formatPriceForDisplay fmt v = fmt (clampPriceForDisplay v)"
    by (simp add: formatPriceForDisplay_def)
  have c1: "clampPriceForDisplay NaN = Finite 0" "formatPriceForDisplay fmt NaN = fmt (Finite 0)"
    "clampPriceForDisplay NegInfinity = Finite 0"
    "formatPriceForDisplay fmt NegInfinity = fmt (Finite 0)"
    "clampPriceForDisplay PosInfinity = Finite 100000"
    "formatPriceForDisplay fmt PosInfinity = fmt (Finite 100000)"
    "clampPriceForDisplay NegZero = NegZero" "formatPriceForDisplay fmt NegZero = fmt NegZero"
    by (simp_all add: formatPriceForDisplay_def clamp_cases)
  have c2: "x < 0 \<longrightarrow> clampPriceForDisplay (Finite x) = Finite 0
                 \<and> formatPriceForDisplay fmt (Finite x) = fmt (Finite 0)"
    by (simp add: formatPriceForDisplay_def clamp_cases)
  have c3: "100000 < x \<longrightarrow> clampPriceForDisplay (Finite x) = Finite 100000
                      \<and> formatPriceForDisplay fmt (Finite x) = fmt (Finite 100000)"
    by (simp add: formatPriceForDisplay_def clamp_cases)
  have c4: "0 \<le> x \<and> x \<le> 100000 \<longrightarrow> clampPriceForDisplay (Finite x) = Finite x
                      \<and> formatPriceForDisplay fmt (Finite x) = fmt (Finite x)"
    by (simp add: formatPriceForDisplay_def clamp_cases)
  have c5: "clampPriceForDisplay v = NegZero
        \<or> (\<exists>r. clampPriceForDisplay v = Finite r \<and> 0 \<le> r \<and> r \<le> 100000)"
    by (rule clamp_range)
  have c6: "marketDataLines fmt big d ! 1
        = ''Current price (USD): $'' @ fmt (clampPriceForDisplay (currentPriceUsd d))"
    "marketDataLines fmt big d ! 2
        = ''Market cap (USD): $'' @ fmt (clampPriceForDisplay (marketCap d))"
    "marketDataLines fmt big d ! 3
        = ''24h volume (USD): $'' @ fmt (clampPriceForDisplay (totalVolume d))"
    by (simp_all add: marketDataLines_def formatPriceForDisplay_def)
  have c7: "formatMarketData fmt big d = join [CHR 0x0A] (marketDataLines fmt big d)"
    by (simp add: formatMarketData_def)
  have c8: "fmt (Finite 0) = ''0'' \<longrightarrow>
         formatPriceForDisplay fmt NaN = ''0'' \<and> formatPriceForDisplay fmt NegInfinity = ''0''
       \<and> (x < 0 \<longrightarrow> formatPriceForDisplay fmt (Finite x) = ''0'')"
    by (simp add: formatPriceForDisplay_def clamp_cases)
  have c9: "fmt (Finite 100000) = ''100,000'' \<longrightarrow>
         formatPriceForDisplay fmt PosInfinity = ''100,000''
       \<and> (100000 < x \<longrightarrow> formatPriceForDisplay fmt (Finite x) = ''100,000'')"
    by (simp add: formatPriceForDisplay_def clamp_cases)
  from c0 c1 c2 c3 c4 c5 clamp_bounds [of v] c8 c9 c6 c7 show ?thesis
    by (intro conjI)
qed

text \<open>
  An example with the formatter of the examples: a current price of 250,000 is printed
  as 100,000, a volume of -5 as 0, an infinite market cap as 100,000, and a price of
  1234.5, which is in range, as itself.
\<close>

theorem prompt_prices_clamped_witness:
  "(-5 :: real) < 0 \<and> (100000 :: real) < 250000
   \<and> (0 :: real) \<le> 1234.5 \<and> (1234.5 :: real) \<le> 100000
   \<and> formatPriceForDisplay example_toLocaleString (Finite (-5)) = ''0''
   \<and> formatPriceForDisplay example_toLocaleString (Finite 250000) = ''100,000''
   \<and> clampPriceForDisplay (Finite 1234.5) = Finite 1234.5
   \<and> formatPriceForDisplay example_toLocaleString (Finite 1234.5) = ''1,234.5''
   \<and> marketDataLines example_toLocaleString (\<lambda>x. []) \<lparr> name = ''Bitcoin'', symbol = ''btc'',
          currentPriceUsd = Finite 250000, priceChange24h = None, priceChange30d = None,
          priceChange60d = None, priceChange200d = None, totalVolume = Finite (-5),
          marketCap = PosInfinity \<rparr> ! 2 = ''Market cap (USD): $100,000''"
  using prompt_prices_clamped [of example_toLocaleString PosInfinity "-5" "\<lambda>x. []"
          "\<lparr> name = ''Bitcoin'', symbol = ''btc'',
          currentPriceUsd = Finite 250000, priceChange24h = None, priceChange30d = None,
          priceChange60d = None, priceChange200d = None, totalVolume = Finite (-5),
          marketCap = PosInfinity \<rparr>"]
    prompt_prices_clamped [of example_toLocaleString PosInfinity 250000 "\<lambda>x. []"
          "\<lparr> name = ''Bitcoin'', symbol = ''btc'',
          currentPriceUsd = Finite 250000, priceChange24h = None, priceChange30d = None,
          priceChange60d = None, priceChange200d = None, totalVolume = Finite (-5),
          marketCap = PosInfinity \<rparr>"]
    prompt_prices_clamped [of example_toLocaleString PosInfinity "1234.5" "\<lambda>x. []"
          "\<lparr> name = ''Bitcoin'', symbol = ''btc'',
          currentPriceUsd = Finite 250000, priceChange24h = None, priceChange30d = None,
          priceChange60d = None, priceChange200d = None, totalVolume = Finite (-5),
          marketCap = PosInfinity \<rparr>"]
  by (simp add: clamp_cases example_toLocaleString_def)

lemma pct_cases:
  "pct big None = ''N/A''"
  "pct big (Some NaN) = ''N/A''"
  "pct big (Some (Finite x)) = toFixed big 2 (Finite x) @ ''%''"
  "pct big (Some NegZero) = toFixed big 2 (Finite 0) @ ''%''"
  by (simp_all add: pct_def toFixed_def)

lemma pct_zero: "pct big (Some (Finite 0)) = ''0.00%''" "pct big (Some NegZero) = ''0.00%''"
  by (simp_all add: pct_cases toFixed2_finite decimal_lt10 digit_char_def)

lemma pct_example: "pct big (Some (Finite (13 / 4))) = ''3.25%''"
  by (simp add: pct_cases toFixed2_finite decimal_lt10 digit_char_def)


lemma pct_finite:
  assumes "\<bar>x\<bar> < 10 ^ 21"
  shows "pct big (Some (Finite x)) =
           (if x < 0 then ''-'' else []) @ decimal (nat \<lfloor>\<bar>x\<bar> * 100 + 1 / 2\<rfloor> div 100) @ ''.'' @
             [digit_char (nat \<lfloor>\<bar>x\<bar> * 100 + 1 / 2\<rfloor> div 10 mod 10),
              digit_char (nat \<lfloor>\<bar>x\<bar> * 100 + 1 / 2\<rfloor> mod 10)] @ ''%''"
  unfolding pct_cases toFixed2_finite [OF assms] by simp

lemma formatMarketData_unfold:
  "formatMarketData fmt big d =
          (''Coin: '' @ name d @ '' ('' @ toUpperCase (symbol d) @ '')'' @ [CHR 0x0A]
            @ ''Current price (USD): $'' @ formatPriceForDisplay fmt (currentPriceUsd d) @ [CHR 0x0A]
            @ ''Market cap (USD): $'' @ formatPriceForDisplay fmt (marketCap d) @ [CHR 0x0A]
            @ ''24h volume (USD): $'' @ formatPriceForDisplay fmt (totalVolume d))
              @ [CHR 0x0A] @ ''24h price change: '' @ pct big (priceChange24h d)
              @ [CHR 0x0A] @ ''30d price change: '' @ pct big (priceChange30d d)
              @ [CHR 0x0A] @ ''60d price change: '' @ pct big (priceChange60d d)
              @ [CHR 0x0A] @ ''200d price change: '' @ pct big (priceChange200d d)"
  unfolding formatMarketData_def marketDataLines_def join.simps by simp


text \<open>
  Claim C8, as the formatter is written. The data block of the prompt ends with the
  four lines for the 24h, 30d, 60d and 200d changes. A change that is a finite number
  of magnitude below \<open>10^21\<close> is written as an optional minus sign, the integer
  digits, a point, exactly two decimals and a percent sign, the value being rounded
  to hundredths (3.25 gives \<open>3.25%\<close>, and the negative zero gives \<open>0.00%\<close>). A change
  that is absent is written \<open>N/A\<close>, and so is a change that is present but not a
  number.
\<close>

theorem prompt_percent_lines:
  "(\<bar>x\<bar> < 10 ^ 21 \<longrightarrow>
      (\<exists>ip d1 d2. pct big (Some (Finite x)) =
           (if x < 0 then ''-'' else []) @ ip @ ''.'' @ [d1, d2] @ ''%''
         \<and> ip = decimal (nat \<lfloor>\<bar>x\<bar> * 100 + 1 / 2\<rfloor> div 100)
         \<and> d1 = digit_char (nat \<lfloor>\<bar>x\<bar> * 100 + 1 / 2\<rfloor> div 10 mod 10)
         \<and> d2 = digit_char (nat \<lfloor>\<bar>x\<bar> * 100 + 1 / 2\<rfloor> mod 10)
         \<and> ip \<noteq> [] \<and> set ip \<subseteq> set ''0123456789''
         \<and> d1 \<in> set ''0123456789'' \<and> d2 \<in> set ''0123456789''))
   \<and> pct big (Some (Finite (13 / 4))) = ''3.25%''
   \<and> pct big None = ''N/A''
   \<and> pct big (Some NaN) = ''N/A''
   \<and> pct big (Some NegZero) = ''0.00%''
   \<and> drop 4 (marketDataLines fmt big d) =
        [''24h price change: '' @ pct big (priceChange24h d),
         ''30d price change: '' @ pct big (priceChange30d d),
         ''60d price change: '' @ pct big (priceChange60d d),
         ''200d price change: '' @ pct big (priceChange200d d)]
   \<and> (\<exists>pre. formatMarketData fmt big d =
          pre @ [CHR 0x0A] @ ''24h price change: '' @ pct big (priceChange24h d)
              @ [CHR 0x0A] @ ''30d price change: '' @ pct big (priceChange30d d)
              @ [CHR 0x0A] @ ''60d price change: '' @ pct big (priceChange60d d)
              @ [CHR 0x0A] @ ''200d price change: '' @ pct big (priceChange200d d))"
proof (intro conjI impI)
  assume b: "\<bar>x\<bar> < 10 ^ 21"
  show "\<exists>ip d1 d2. pct big (Some (Finite x)) =
           (if x < 0 then ''-'' else []) @ ip @ ''.'' @ [d1, d2] @ ''%''
         \<and> ip = decimal (nat \<lfloor>\<bar>x\<bar> * 100 + 1 / 2\<rfloor> div 100)
         \<and> d1 = digit_char (nat \<lfloor>\<bar>x\<bar> * 100 + 1 / 2\<rfloor> div 10 mod 10)
         \<and> d2 = digit_char (nat \<lfloor>\<bar>x\<bar> * 100 + 1 / 2\<rfloor> mod 10)
         \<and> ip \<noteq> [] \<and> set ip \<subseteq> set ''0123456789''
         \<and> d1 \<in> set ''0123456789'' \<and> d2 \<in> set ''0123456789''"
    apply (rule exI [of _ "decimal (nat \<lfloor>\<bar>x\<bar> * 100 + 1 / 2\<rfloor> div 100)"])
    apply (rule exI [of _ "digit_char (nat \<lfloor>\<bar>x\<bar> * 100 + 1 / 2\<rfloor> div 10 mod 10)"])
    apply (rule exI [of _ "digit_char (nat \<lfloor>\<bar>x\<bar> * 100 + 1 / 2\<rfloor> mod 10)"])
    apply (intro conjI)
           apply (rule pct_finite [OF b])
          apply (rule refl)
         apply (rule refl)
        apply (rule refl)
       apply (rule decimal_nonempty)
      apply (rule decimal_digits)
     apply (rule digit_char_digit)
    apply (rule digit_char_digit)
    done
next
  show "pct big (Some (Finite (13 / 4))) = ''3.25%''"
    by (rule pct_example)
next
  show "pct big None = ''N/A''"
    by (rule pct_cases)
next
  show "pct big (Some NaN) = ''N/A''"
    by (rule pct_cases)
next
  show "pct big (Some NegZero) = ''0.00%''"
    by (rule pct_zero)
next
  show "drop 4 (marketDataLines fmt big d) =
        [''24h price change: '' @ pct big (priceChange24h d),
         ''30d price change: '' @ pct big (priceChange30d d),
         ''60d price change: '' @ pct big (priceChange60d d),
         ''200d price change: '' @ pct big (priceChange200d d)]"
    unfolding marketDataLines_def by simp
next
  show "\<exists>pre. formatMarketData fmt big d =
          pre @ [CHR 0x0A] @ ''24h price change: '' @ pct big (priceChange24h d)
              @ [CHR 0x0A] @ ''30d price change: '' @ pct big (priceChange30d d)
              @ [CHR 0x0A] @ ''60d price change: '' @ pct big (priceChange60d d)
              @ [CHR 0x0A] @ ''200d price change: '' @ pct big (priceChange200d d)"
    by (rule exI) (rule formatMarketData_unfold)
qed


theorem prompt_percent_lines_witness:
  "\<bar>- 71 / 10 :: real\<bar> < 10 ^ 21
   \<and> pct (\<lambda>x. []) (Some (Finite (- 71 / 10))) = ''-7.10%''"
  using prompt_percent_lines [of "- 71 / 10" "\<lambda>x. []"]
  by (simp add: decimal_lt10 digit_char_def)

text \<open>
  A snapshot whose four changes are all present, the 24h change being not-a-number:
  its 24h line reads \<open>N/A\<close>, not a percentage with two decimals.
\<close>

theorem prompt_percent_nan_renders_na:
  "marketDataLines (\<lambda>v. []) (\<lambda>x. [])
     \<lparr> name = ''Bitcoin'', symbol = ''btc'', currentPriceUsd = Finite 50000,
       priceChange24h = Some NaN, priceChange30d = Some (Finite 1),
       priceChange60d = Some (Finite 2), priceChange200d = Some (Finite 3),
       totalVolume = Finite 1000, marketCap = Finite 90000 \<rparr> ! 4
   = ''24h price change: N/A''"
  by (simp add: marketDataLines_def pct_def)

section \<open>Properties of the detail fetch\<close>

lemma elapse_fields [simp]:
  "now (elapse d st) = now st + int d"
  "requests (elapse d st) = requests st"
  "coinCache (elapse d st) = coinCache st"
  "lastMoreInfoRequestTime (elapse d st) = lastMoreInfoRequestTime st"
  "lockEndTime (elapse d st) = lockEndTime st"
  "lockListeners (elapse d st) = lockListeners st"
  by (simp_all add: elapse_def lock_timeout_fires_def Let_def split: option.splits)

lemma elapse_locked_imp: "isApiLocked (elapse d st) \<Longrightarrow> isApiLocked st"
  by (simp add: elapse_def lock_timeout_fires_def Let_def split: option.splits if_splits)

lemma elapse_isApiLocked:
  "isApiLocked (elapse d st) \<longleftrightarrow>
     isApiLocked st \<and> (case lockTimeoutId st of Some due \<Rightarrow> now st + int d < due | None \<Rightarrow> True)"
  by (auto simp: elapse_def lock_timeout_fires_def Let_def split: option.splits)

lemma elapse_lockTimeoutId:
  "lockTimeoutId (elapse d st) =
     (case lockTimeoutId st of
        Some due \<Rightarrow> if due \<le> now st + int d then None else Some due
      | None \<Rightarrow> None)"
  by (simp add: elapse_def lock_timeout_fires_def Let_def split: option.splits)

lemma elapse_notified:
  "notified (elapse d st) =
     (case lockTimeoutId st of
        Some due \<Rightarrow> if due \<le> now st + int d then notified st @ lockListeners st else notified st
      | None \<Rightarrow> notified st)"
  by (simp add: elapse_def lock_timeout_fires_def Let_def split: option.splits)

lemma elapse_consistent: "lock_consistent st \<Longrightarrow> lock_consistent (elapse d st)"
  by (auto simp: lock_consistent_def elapse_lockTimeoutId elapse_isApiLocked split: option.splits)

lemma elapse_elapse: "elapse b (elapse a st) = elapse (a + b) st"
  by (auto simp: elapse_def lock_timeout_fires_def Let_def add.assoc split: option.splits)

lemma setApiLocked_fields [simp]:
  "now (setApiLocked st) = now st"
  "requests (setApiLocked st) = requests st"
  "coinCache (setApiLocked st) = coinCache st"
  "lastMoreInfoRequestTime (setApiLocked st) = lastMoreInfoRequestTime st"
  "lockEndTime (setApiLocked st) = now st + 10000"
  "lockListeners (setApiLocked st) = lockListeners st"
  "isApiLocked (setApiLocked st) = True"
  "lockTimeoutId (setApiLocked st) = Some (now st + 10000)"
  "notified (setApiLocked st) = notified st"
  by (simp_all add: setApiLocked_def LOCK_DURATION_MS_def)

lemma setApiLocked_consistent: "lock_consistent (setApiLocked st)"
  by (simp add: lock_consistent_def)

lemma store_in_cache_fields [simp]:
  "now (store_in_cache k d st) = now st"
  "requests (store_in_cache k d st) = requests st"
  "coinCache (store_in_cache k d st) = (coinCache st)(k \<mapsto> \<lparr> data = d, fetchedAt = now st \<rparr>)"
  "lastMoreInfoRequestTime (store_in_cache k d st) = lastMoreInfoRequestTime st"
  "lockEndTime (store_in_cache k d st) = lockEndTime st"
  "lockListeners (store_in_cache k d st) = lockListeners st"
  "isApiLocked (store_in_cache k d st) = isApiLocked st"
  "lockTimeoutId (store_in_cache k d st) = lockTimeoutId st"
  "notified (store_in_cache k d st) = notified st"
  by (simp_all add: store_in_cache_def)


lemma throttle_fields [simp]:
  "now (throttle st) = max (now st) (lastMoreInfoRequestTime st + 2000)"
  "requests (throttle st) = requests st"
  "coinCache (throttle st) = coinCache st"
  "lastMoreInfoRequestTime (throttle st) = max (now st) (lastMoreInfoRequestTime st + 2000)"
  "lockEndTime (throttle st) = lockEndTime st"
  "lockListeners (throttle st) = lockListeners st"
  by (auto simp: throttle_def MORE_INFO_MIN_INTERVAL_MS_def Let_def)

lemma throttle_locked_imp: "isApiLocked (throttle st) \<Longrightarrow> isApiLocked st"
  by (auto simp: throttle_def Let_def dest: elapse_locked_imp split: if_splits)

lemma throttle_unlocked:
  assumes "lock_consistent st" "\<not> isApiLocked st"
  shows "\<not> isApiLocked (throttle st)" "lockTimeoutId (throttle st) = None"
        "notified (throttle st) = notified st"
  using assms
  by (auto simp: throttle_def Let_def lock_consistent_def elapse_isApiLocked
        elapse_lockTimeoutId elapse_notified split: option.splits)

lemma throttle_consistent: "lock_consistent st \<Longrightarrow> lock_consistent (throttle st)"
proof -
  assume a: "lock_consistent st"
  have "lock_consistent (st1\<lparr> lastMoreInfoRequestTime := t \<rparr>) = lock_consistent st1" for st1 t
    by (simp add: lock_consistent_def split: option.splits)
  then show ?thesis
    using a by (simp add: throttle_def Let_def elapse_consistent)
qed

lemma doRequest_simps [simp]:
  "fst (doRequest nid r st) = settle_request nid (outcome r)"
  "now (snd (doRequest nid r st)) = now st + int (latency r)"
  "requests (snd (doRequest nid r st)) = requests st @ [nid]"
  "coinCache (snd (doRequest nid r st)) = coinCache st"
  "lastMoreInfoRequestTime (snd (doRequest nid r st)) = lastMoreInfoRequestTime st"
  "lockEndTime (snd (doRequest nid r st)) = lockEndTime st"
  "lockListeners (snd (doRequest nid r st)) = lockListeners st"
  by (simp_all add: doRequest_def)

lemma doRequest_isApiLocked:
  "isApiLocked (snd (doRequest nid r st)) \<longleftrightarrow>
     isApiLocked st \<and> (case lockTimeoutId st of Some due \<Rightarrow> now st + int (latency r) < due | None \<Rightarrow> True)"
  by (simp add: doRequest_def elapse_isApiLocked split: option.splits)

lemma doRequest_lockTimeoutId:
  "lockTimeoutId (snd (doRequest nid r st)) =
     (case lockTimeoutId st of
        Some due \<Rightarrow> if due \<le> now st + int (latency r) then None else Some due
      | None \<Rightarrow> None)"
  by (simp add: doRequest_def elapse_lockTimeoutId split: option.splits)

lemma doRequest_notified:
  "notified (snd (doRequest nid r st)) =
     (case lockTimeoutId st of
        Some due \<Rightarrow> if due \<le> now st + int (latency r) then notified st @ lockListeners st
                    else notified st
      | None \<Rightarrow> notified st)"
  by (simp add: doRequest_def elapse_notified split: option.splits)

text \<open>The fetch, unfolded along the path it takes.\<close>

lemma fetchMoreInfo_hit:
  "cached_valid st (toLowerCase (trim coinId)) = Some d \<Longrightarrow>
   fetchMoreInfo coinId r1 r2 st = (Inr d, st)"
  by (simp add: fetchMoreInfo_def)

lemma fetchMoreInfo_busy:
  "cached_valid st (toLowerCase (trim coinId)) = None \<Longrightarrow>
   isApiLocked st \<Longrightarrow> now st < lockEndTime st \<Longrightarrow>
   fetchMoreInfo coinId r1 r2 st = (Inl busy_error, st)"
  by (simp add: fetchMoreInfo_def)

lemma fetchMoreInfo_network:
  assumes "cached_valid st nid = None" "\<not> (isApiLocked st \<and> now st < lockEndTime st)"
    and "nid = toLowerCase (trim coinId)"
  shows "fetchMoreInfo coinId r1 r2 st =
     (case settle_request nid (outcome r1) of
        Inr d \<Rightarrow> (Inr d, store_in_cache nid d (snd (doRequest nid r1 (throttle st))))
      | Inl err \<Rightarrow>
          if isRetryableError err
          then (case settle_request nid (outcome r2) of
                  Inr d \<Rightarrow> (Inr d, store_in_cache nid d
                              (snd (doRequest nid r2 (after_first_failure nid r1 err st))))
                | Inl retryErr \<Rightarrow> (Inl retryErr,
                              snd (doRequest nid r2 (after_first_failure nid r1 err st))))
          else (Inl err, snd (doRequest nid r1 (throttle st))))"
proof -
  have "fetchMoreInfo coinId r1 r2 st =
      (case doRequest nid r1 (throttle st) of
                  (Inr d, st3) \<Rightarrow> (Inr d, store_in_cache nid d st3)
                | (Inl err, st3) \<Rightarrow>
                    if isRetryableError err
                    then
                      (let st4 = (if is_rate_limit err then setApiLocked st3 else st3);
                           st5 = elapse RETRY_WAIT_MS st4
                       in case doRequest nid r2 st5 of
                            (Inr d, st6) \<Rightarrow> (Inr d, store_in_cache nid d st6)
                          | (Inl retryErr, st6) \<Rightarrow> (Inl retryErr, st6))
                    else (Inl err, st3))"
    unfolding fetchMoreInfo_def Let_def assms(3) [symmetric] assms(1)
    using assms(2) by (simp only: option.case if_False)
  then show ?thesis
    by (simp add: doRequest_def after_first_failure_def Let_def split: sum.splits)
qed

lemma fetchMoreInfo_first_ok:
  assumes "cached_valid st nid = None" "\<not> (isApiLocked st \<and> now st < lockEndTime st)"
    and "nid = toLowerCase (trim coinId)"
    and "settle_request nid (outcome r1) = Inr d"
  shows "fetchMoreInfo coinId r1 r2 st =
           (Inr d, store_in_cache nid d (snd (doRequest nid r1 (throttle st))))"
  by (simp add: fetchMoreInfo_network [OF assms(1,2,3)] assms(4))


lemma fetchMoreInfo_retry:
  assumes "cached_valid st nid = None" "\<not> (isApiLocked st \<and> now st < lockEndTime st)"
    and "nid = toLowerCase (trim coinId)"
    and "settle_request nid (outcome r1) = Inl err" "isRetryableError err"
  shows "fetchMoreInfo coinId r1 r2 st =
           (case settle_request nid (outcome r2) of
              Inr d \<Rightarrow> (Inr d, store_in_cache nid d
                          (snd (doRequest nid r2 (after_first_failure nid r1 err st))))
            | Inl retryErr \<Rightarrow> (Inl retryErr,
                          snd (doRequest nid r2 (after_first_failure nid r1 err st))))"
  by (simp add: fetchMoreInfo_network [OF assms(1,2,3)] assms(4,5))


lemma isMoreInfoRequest_detail: "isMoreInfoRequest ''/simple/price'' ''usd,eur,ils''"
  unfolding isMoreInfoRequest_def by (rule conjI) (rule sublist_order.order_refl, rule refl)

lemma interceptor_detail:
  "interceptor ''/simple/price'' ''usd,eur,ils'' (Axios e) =
     (if status e = Some 429
      then Axios (e\<lparr> message :=
            ''Data temporarily unavailable due to high demand. Please try again in a minute.'' \<rparr>)
      else if message e = ''Network Error'' \<or> code e = Some ''ERR_NETWORK''
      then Axios (e\<lparr> message :=
            ''Network error. Check your connection or try again later.'' \<rparr>)
      else Axios e)"
  "interceptor ''/simple/price'' ''usd,eur,ils'' (PlainError m) = PlainError m"
  "interceptor ''/simple/price'' ''usd,eur,ils'' NonError = NonError"
  unfolding interceptor_def using isMoreInfoRequest_detail by simp_all

lemma caught_retryable:
  "isRetryableError (interceptor ''/simple/price'' ''usd,eur,ils'' (Axios e))
     \<longleftrightarrow> status e = Some 429 \<or> code e = Some ''ERR_NETWORK''"
  "is_rate_limit (interceptor ''/simple/price'' ''usd,eur,ils'' (Axios e))
     \<longleftrightarrow> status e = Some 429"
  by (auto simp: interceptor_detail)

lemma settle_rejected:
  "settle_request nid (Rejected err) = Inl (interceptor ''/simple/price'' ''usd,eur,ils'' err)"
  by (simp add: settle_request_def)

lemma after_first_failure_fields [simp]:
  "now (after_first_failure nid r1 err st)
     = max (now st) (lastMoreInfoRequestTime st + 2000) + int (latency r1) + 3000"
  "requests (after_first_failure nid r1 err st) = requests st @ [nid]"
  "coinCache (after_first_failure nid r1 err st) = coinCache st"
  "lockListeners (after_first_failure nid r1 err st) = lockListeners st"
  "lockEndTime (after_first_failure nid r1 err st)
     = (if is_rate_limit err
        then max (now st) (lastMoreInfoRequestTime st + 2000) + int (latency r1) + 10000
        else lockEndTime st)"
  by (simp_all add: after_first_failure_def RETRY_WAIT_MS_def)

lemma after_first_failure_rate_limit:
  assumes "is_rate_limit err"
  shows "isApiLocked (after_first_failure nid r1 err st)"
    "lockTimeoutId (after_first_failure nid r1 err st)
       = Some (max (now st) (lastMoreInfoRequestTime st + 2000) + int (latency r1) + 10000)"
  using assms
  by (simp_all add: after_first_failure_def RETRY_WAIT_MS_def elapse_isApiLocked
        elapse_lockTimeoutId)



lemma cached_valid_elapse_store:
  "cached_valid (elapse e (store_in_cache nid d st)) nid =
     (if int e < 120000 then Some d else None)"
  by (simp add: cached_valid_def COIN_CACHE_TTL_MS_def)

lemma after_first_failure_locked_imp:
  "\<not> is_rate_limit err \<Longrightarrow> isApiLocked (after_first_failure nid r1 err st) \<Longrightarrow> isApiLocked st"
  by (auto simp: after_first_failure_def doRequest_isApiLocked
        dest!: elapse_locked_imp throttle_locked_imp)

lemma doRequest_locked_imp: "isApiLocked (snd (doRequest nid r st)) \<Longrightarrow> isApiLocked st"
  by (simp add: doRequest_isApiLocked)


section \<open>Properties of the interleaved steps\<close>

lemma run_snoc: "run (evs @ [ev]) S = step (run evs S) ev"
  by (simp add: run_def)

lemma run_Nil: "run [] S = S"
  by (simp add: run_def)

lemma run_append: "run (evs @ evs') S = run evs' (run evs S)"
  by (simp add: run_def)

text \<open>What one event does to the module state.\<close>

lemma api_step_cases:
  "api (step S ev) = api S
   \<or> (\<exists>d. ev = Elapse d \<and> api (step S ev) = elapse d (api S))
   \<or> (\<exists>rs. api (step S ev) = (api S)\<lparr> lastMoreInfoRequestTime := now (api S), requests := rs \<rparr>)
   \<or> (\<exists>rs. api (step S ev) = (api S)\<lparr> requests := rs \<rparr>)
   \<or> (\<exists>k out n d. ev = Answer k out \<and> k < length (calls S)
          \<and> (calls S ! k = FirstRequest n \<or> calls S ! k = RetryRequest n)
          \<and> settle_request n out = Inr d
          \<and> api (step S ev) = store_in_cache n d (api S))
   \<or> (\<exists>k out. ev = Answer k out \<and> api (step S ev) = setApiLocked (api S))
   \<or> (\<exists>l. api (step S ev) = subscribeToMoreInfoLock l (api S))
   \<or> (\<exists>l. api (step S ev) = unsubscribe l (api S))"
proof (cases ev)
  case (Call coinId)
  then show ?thesis
    by (auto simp: fetchMoreInfo_call_def send_request_def Let_def split: option.splits)
next
  case (Elapse d)
  then show ?thesis by simp
next
  case (TimerFires k)
  then show ?thesis
    by (auto simp: fetchMoreInfo_after_timer_def send_request_def split: stage.splits)
next
  case (Answer k out)
  then show ?thesis
    by (auto simp: fetchMoreInfo_after_request_def split: stage.splits sum.splits)
next
  case (Subscribe l)
  then show ?thesis by auto
next
  case (Unsubscribe l)
  then show ?thesis by auto
qed


lemma now_step: "now (api S) \<le> now (api (step S ev))"
  using api_step_cases [of S ev]
  by (auto simp: subscribeToMoreInfoLock_def unsubscribe_def)

lemma now_run: "now (api S) \<le> now (api (run evs S))"
proof (induction evs rule: rev_induct)
  case Nil
  then show ?case by (simp add: run_Nil)
next
  case (snoc ev evs)
  then show ?case
    using now_step [of "run evs S" ev] by (simp add: run_snoc)
qed

lemma consistent_step:
  assumes "lock_consistent (api S)"
  shows "lock_consistent (api (step S ev))"
proof -
  have upd: "lock_consistent (st\<lparr> lastMoreInfoRequestTime := t, requests := rs \<rparr>) = lock_consistent st"
    "lock_consistent (st\<lparr> requests := rs \<rparr>) = lock_consistent st"
    "lock_consistent (st\<lparr> lastMoreInfoRequestTime := t \<rparr>) = lock_consistent st"
    "lock_consistent (store_in_cache n d st) = lock_consistent st"
    "lock_consistent (subscribeToMoreInfoLock l st) = lock_consistent st"
    "lock_consistent (unsubscribe l st) = lock_consistent st" for st t rs n d l
    by (simp_all add: lock_consistent_def subscribeToMoreInfoLock_def unsubscribe_def
          split: option.splits)
  show ?thesis
    using api_step_cases [of S ev] assms
    by (auto simp: upd elapse_consistent setApiLocked_consistent)
qed

lemma consistent_run:
  assumes "lock_consistent (api S)"
  shows "lock_consistent (api (run evs S))"
proof (induction evs rule: rev_induct)
  case Nil
  then show ?case using assms by (simp add: run_Nil)
next
  case (snoc ev evs)
  then show ?case
    by (simp add: run_snoc consistent_step)
qed

lemma consistent_start: "lock_consistent (api (start t))"
  by (simp add: start_def module_init_def lock_consistent_def)

lemma consistent_reachable: "lock_consistent (api (run evs (start t)))"
  by (rule consistent_run) (rule consistent_start)

text \<open>Once engaged at time T, the lock stays on until ten seconds after T at least.\<close>

lemma lock_held_step:
  assumes c: "lock_consistent (api S)"
    and h: "T \<le> now (api S)" "T + 10000 \<le> lockEndTime (api S)"
           "now (api S) < lockEndTime (api S) \<longrightarrow> isApiLocked (api S)"
  shows "T \<le> now (api (step S ev)) \<and> T + 10000 \<le> lockEndTime (api (step S ev))
       \<and> (now (api (step S ev)) < lockEndTime (api (step S ev)) \<longrightarrow> isApiLocked (api (step S ev)))"
proof -
  have el: "now (elapse d st) < lockEndTime (elapse d st) \<longrightarrow> isApiLocked (elapse d st)"
    if "lock_consistent st" "now st < lockEndTime st \<longrightarrow> isApiLocked st" for d st
    using that
    by (auto simp: elapse_isApiLocked lock_consistent_def split: option.splits)
  show ?thesis
    using api_step_cases [of S ev] c h el [of "api S"]
    by (auto simp: subscribeToMoreInfoLock_def unsubscribe_def)
qed

lemma lock_held_run:
  assumes c: "lock_consistent (api S)"
    and h: "T \<le> now (api S)" "T + 10000 \<le> lockEndTime (api S)"
           "now (api S) < lockEndTime (api S) \<longrightarrow> isApiLocked (api S)"
  shows "T \<le> now (api (run evs S)) \<and> T + 10000 \<le> lockEndTime (api (run evs S))
       \<and> (now (api (run evs S)) < lockEndTime (api (run evs S)) \<longrightarrow> isApiLocked (api (run evs S)))"
proof (induction evs rule: rev_induct)
  case Nil
  then show ?case using h by (simp add: run_Nil)
next
  case (snoc ev evs)
  have "lock_consistent (api (run evs S))"
    using c by (rule consistent_run)
  then show ?case
    unfolding run_snoc using snoc by (intro lock_held_step) simp_all
qed

lemma is_rate_limit_settle:
  assumes "settle_request n out = Inl err" "is_rate_limit err"
  shows "\<exists>e. out = Rejected (Axios e) \<and> status e = Some 429"
proof (cases out)
  case (Resolved body)
  with assms show ?thesis
    by (cases body) (auto simp: settle_request_def split: option.splits)
next
  case (Rejected x)
  with assms show ?thesis
    by (cases x) (auto simp: settle_request_def interceptor_detail split: if_splits)
qed

lemma lockEndTime_step:
  assumes "\<not> rate_limited ev"
  shows "lockEndTime (api (step S ev)) = lockEndTime (api S)"
proof (cases ev)
  case (Call coinId)
  then show ?thesis
    by (auto simp: fetchMoreInfo_call_def send_request_def Let_def split: option.splits)
next
  case (Elapse d)
  then show ?thesis by simp
next
  case (TimerFires k)
  then show ?thesis
    by (auto simp: fetchMoreInfo_after_timer_def send_request_def split: stage.splits)
next
  case (Answer k out)
  have "\<not> is_rate_limit err" if "settle_request n out = Inl err" for n err
    using is_rate_limit_settle [OF that] assms Answer by auto
  with Answer show ?thesis
    by (auto simp: fetchMoreInfo_after_request_def split: stage.splits sum.splits)
next
  case (Subscribe l)
  then show ?thesis by (simp add: subscribeToMoreInfoLock_def)
next
  case (Unsubscribe l)
  then show ?thesis by (simp add: unsubscribe_def)
qed

lemma lockEndTime_run:
  assumes "\<forall>ev \<in> set evs. \<not> rate_limited ev"
  shows "lockEndTime (api (run evs S)) = lockEndTime (api S)"
  using assms
proof (induction evs rule: rev_induct)
  case Nil
  then show ?case by (simp add: run_Nil)
next
  case (snoc ev evs)
  then show ?case
    by (simp add: run_snoc lockEndTime_step)
qed


text \<open>What a call does, by the path it takes.\<close>

lemma call_hit:
  assumes "cached_valid (api S) nid = Some d" "nid = toLowerCase (trim coinId)"
  shows "fetchMoreInfo_call coinId S = S\<lparr> calls := calls S @ [Settled nid (Inr d)] \<rparr>"
  using assms by (simp add: fetchMoreInfo_call_def Let_def)

lemma call_busy:
  assumes "cached_valid (api S) nid = None" "nid = toLowerCase (trim coinId)"
    and "isApiLocked (api S)" "now (api S) < lockEndTime (api S)"
  shows "fetchMoreInfo_call coinId S = S\<lparr> calls := calls S @ [Settled nid (Inl busy_error)] \<rparr>"
  using assms by (simp add: fetchMoreInfo_call_def Let_def)

lemma call_throttled:
  assumes "cached_valid (api S) nid = None" "nid = toLowerCase (trim coinId)"
    and "\<not> (isApiLocked (api S) \<and> now (api S) < lockEndTime (api S))"
    and "now (api S) - lastMoreInfoRequestTime (api S) < 2000"
  shows "fetchMoreInfo_call coinId S =
           S\<lparr> calls := calls S @ [ThrottleWait nid (lastMoreInfoRequestTime (api S) + 2000)] \<rparr>"
  using assms(1,2,4) assms(3)
  by (simp add: fetchMoreInfo_call_def Let_def MORE_INFO_MIN_INTERVAL_MS_def)

lemma call_sent:
  assumes "cached_valid (api S) nid = None" "nid = toLowerCase (trim coinId)"
    and "\<not> (isApiLocked (api S) \<and> now (api S) < lockEndTime (api S))"
    and "2000 \<le> now (api S) - lastMoreInfoRequestTime (api S)"
  shows "fetchMoreInfo_call coinId S =
           S\<lparr> api := (api S)\<lparr> lastMoreInfoRequestTime := now (api S),
                              requests := requests (api S) @ [nid] \<rparr>,
              calls := calls S @ [FirstRequest nid],
              wire := wire S @ [(length (calls S), nid)] \<rparr>"
  using assms(1,2,4) assms(3)
  by (simp add: fetchMoreInfo_call_def Let_def MORE_INFO_MIN_INTERVAL_MS_def send_request_def)

lemma timer_fires_throttle:
  assumes "k < length (calls S)" "calls S ! k = ThrottleWait nid due" "due \<le> now (api S)"
  shows "fetchMoreInfo_after_timer k S =
           S\<lparr> api := (api S)\<lparr> lastMoreInfoRequestTime := now (api S),
                              requests := requests (api S) @ [nid] \<rparr>,
              calls := (calls S)[k := FirstRequest nid],
              wire := wire S @ [(k, nid)] \<rparr>"
  using assms by (simp add: fetchMoreInfo_after_timer_def send_request_def)

text \<open>
  The table of calls: calls are added at the end, keep their identifier, and stay as
  they are once settled.
\<close>

lemma calls_step:
  "length (calls S) \<le> length (calls (step S ev))"
  "j < length (calls S) \<Longrightarrow> stage_id (calls (step S ev) ! j) = stage_id (calls S ! j)"
  "j < length (calls S) \<Longrightarrow> is_settled (calls S ! j) \<Longrightarrow> calls (step S ev) ! j = calls S ! j"
proof -
  show "length (calls S) \<le> length (calls (step S ev))"
    by (cases ev)
       (auto simp: fetchMoreInfo_call_def send_request_def fetchMoreInfo_after_timer_def fetchMoreInfo_after_request_def Let_def
             split: option.splits stage.splits sum.splits)
  show "stage_id (calls (step S ev) ! j) = stage_id (calls S ! j)" if "j < length (calls S)"
    using that
    by (cases ev)
       (auto simp: fetchMoreInfo_call_def send_request_def fetchMoreInfo_after_timer_def fetchMoreInfo_after_request_def Let_def nth_append
             nth_list_update split: option.splits stage.splits sum.splits)
  show "calls (step S ev) ! j = calls S ! j" if "j < length (calls S)" "is_settled (calls S ! j)"
    using that
    by (cases ev)
       (auto simp: fetchMoreInfo_call_def send_request_def fetchMoreInfo_after_timer_def fetchMoreInfo_after_request_def Let_def nth_append
             nth_list_update split: option.splits stage.splits sum.splits)
qed

lemma calls_run:
  "length (calls S) \<le> length (calls (run evs S))"
  "j < length (calls S) \<Longrightarrow> stage_id (calls (run evs S) ! j) = stage_id (calls S ! j)"
  "j < length (calls S) \<Longrightarrow> is_settled (calls S ! j) \<Longrightarrow> calls (run evs S) ! j = calls S ! j"
proof -
  have "length (calls S) \<le> length (calls (run evs S))
      \<and> (j < length (calls S) \<longrightarrow> stage_id (calls (run evs S) ! j) = stage_id (calls S ! j))
      \<and> (j < length (calls S) \<and> is_settled (calls S ! j) \<longrightarrow> calls (run evs S) ! j = calls S ! j)"
  proof (induction evs rule: rev_induct)
    case Nil
    then show ?case by (simp add: run_Nil)
  next
    case (snoc ev evs)
    let ?R = "run evs S"
    have l: "length (calls ?R) \<le> length (calls (step ?R ev))"
      by (rule calls_step)
    have i: "j < length (calls ?R) \<Longrightarrow> stage_id (calls (step ?R ev) ! j) = stage_id (calls ?R ! j)"
      by (rule calls_step)
    have f: "j < length (calls ?R) \<Longrightarrow> is_settled (calls ?R ! j) \<Longrightarrow>
             calls (step ?R ev) ! j = calls ?R ! j"
      by (rule calls_step)
    from snoc l i f show ?case
      unfolding run_snoc by force
  qed
  then show "length (calls S) \<le> length (calls (run evs S))"
    "j < length (calls S) \<Longrightarrow> stage_id (calls (run evs S) ! j) = stage_id (calls S ! j)"
    "j < length (calls S) \<Longrightarrow> is_settled (calls S ! j) \<Longrightarrow> calls (run evs S) ! j = calls S ! j"
    by simp_all
qed

lemma step_new_call:
  "length (calls (step S ev)) = length (calls S)
   \<or> (\<exists>c stg. ev = Call c \<and> calls (step S ev) = calls S @ [stg]
          \<and> stage_id stg = toLowerCase (trim c)
          \<and> (cached_valid (api S) (toLowerCase (trim c)) \<noteq> None \<longrightarrow> is_settled stg))"
  by (cases ev)
     (auto simp: fetchMoreInfo_call_def send_request_def fetchMoreInfo_after_timer_def fetchMoreInfo_after_request_def Let_def
           split: option.splits stage.splits sum.splits)

text \<open>
  The cache: an entry changes only when a request for its identifier is answered with
  prices.
\<close>

lemma cache_step:
  "coinCache (api (step S ev)) nid = coinCache (api S) nid
   \<or> (\<exists>k out d. ev = Answer k out \<and> k < length (calls S) \<and> \<not> is_settled (calls S ! k)
         \<and> stage_id (calls S ! k) = nid
         \<and> coinCache (api (step S ev)) nid = Some \<lparr> data = d, fetchedAt = now (api S) \<rparr>)"
  using api_step_cases [of S ev]
  by (auto simp: subscribeToMoreInfoLock_def unsubscribe_def)

lemma cache_entry_step:
  assumes "coinCache (api S) nid = Some c" "t0 \<le> fetchedAt c" "fetchedAt c \<le> now (api S)"
  shows "\<exists>c'. coinCache (api (step S ev)) nid = Some c' \<and> t0 \<le> fetchedAt c'
            \<and> fetchedAt c' \<le> now (api (step S ev))"
  using cache_step [of S ev nid] assms now_step [of S ev]
  by auto

lemma cache_entry_run:
  assumes "coinCache (api S) nid = Some c" "t0 \<le> fetchedAt c" "fetchedAt c \<le> now (api S)"
  shows "\<exists>c'. coinCache (api (run evs S)) nid = Some c' \<and> t0 \<le> fetchedAt c'
            \<and> fetchedAt c' \<le> now (api (run evs S))"
proof (induction evs rule: rev_induct)
  case Nil
  then show ?case using assms by (simp add: run_Nil)
next
  case (snoc ev evs)
  then obtain c' where "coinCache (api (run evs S)) nid = Some c'" "t0 \<le> fetchedAt c'"
      "fetchedAt c' \<le> now (api (run evs S))"
    by blast
  then show ?case
    unfolding run_snoc by (rule cache_entry_step)
qed

lemma cache_kept_step:
  assumes e: "coinCache (api S) nid = Some \<lparr> data = d, fetchedAt = t0 \<rparr>"
    and v: "now (api S) - t0 < 120000"
    and q: "\<forall>j < length (calls S). stage_id (calls S ! j) = nid \<longrightarrow> is_settled (calls S ! j)"
  shows "coinCache (api (step S ev)) nid = Some \<lparr> data = d, fetchedAt = t0 \<rparr>
       \<and> (\<forall>j < length (calls (step S ev)).
             stage_id (calls (step S ev) ! j) = nid \<longrightarrow> is_settled (calls (step S ev) ! j))"
proof
  show "coinCache (api (step S ev)) nid = Some \<lparr> data = d, fetchedAt = t0 \<rparr>"
    using cache_step [of S ev nid] e q by auto
  have valid: "cached_valid (api S) nid \<noteq> None"
    using e v by (simp add: cached_valid_def COIN_CACHE_TTL_MS_def)
  show "\<forall>j < length (calls (step S ev)).
             stage_id (calls (step S ev) ! j) = nid \<longrightarrow> is_settled (calls (step S ev) ! j)"
  proof (intro allI impI)
    fix j
    assume j: "j < length (calls (step S ev))" and i: "stage_id (calls (step S ev) ! j) = nid"
    show "is_settled (calls (step S ev) ! j)"
    proof (cases "j < length (calls S)")
      case True
      then have "stage_id (calls S ! j) = nid"
        using i calls_step(2) [of j S ev] by simp
      then have "is_settled (calls S ! j)"
        using q True by simp
      then show ?thesis
        using calls_step(3) [of j S ev] True by simp
    next
      case False
      with j step_new_call [of S ev] obtain c stg where
        n: "calls (step S ev) = calls S @ [stg]" "stage_id stg = toLowerCase (trim c)"
           "cached_valid (api S) (toLowerCase (trim c)) \<noteq> None \<longrightarrow> is_settled stg"
        by auto
      from n(1) j False have jj: "j = length (calls S)"
        by simp
      then have "calls (step S ev) ! j = stg"
        using n(1) by simp
      then show ?thesis
        using i n(2,3) valid by simp
    qed
  qed
qed

lemma cache_kept_run:
  assumes e: "coinCache (api S) nid = Some \<lparr> data = d, fetchedAt = t0 \<rparr>"
    and q: "\<forall>j < length (calls S). stage_id (calls S ! j) = nid \<longrightarrow> is_settled (calls S ! j)"
    and v: "now (api (run evs S)) - t0 < 120000"
  shows "coinCache (api (run evs S)) nid = Some \<lparr> data = d, fetchedAt = t0 \<rparr>
       \<and> (\<forall>j < length (calls (run evs S)).
             stage_id (calls (run evs S) ! j) = nid \<longrightarrow> is_settled (calls (run evs S) ! j))"
  using v
proof (induction evs rule: rev_induct)
  case Nil
  then show ?case using e q by (simp add: run_Nil)
next
  case (snoc ev evs)
  have "now (api (run evs S)) \<le> now (api (run (evs @ [ev]) S))"
    unfolding run_snoc by (rule now_step)
  with snoc.prems have v': "now (api (run evs S)) - t0 < 120000"
    by simp
  with snoc.IH have IH: "coinCache (api (run evs S)) nid = Some \<lparr> data = d, fetchedAt = t0 \<rparr>"
      "\<forall>j < length (calls (run evs S)).
             stage_id (calls (run evs S) ! j) = nid \<longrightarrow> is_settled (calls (run evs S) ! j)"
    by simp_all
  show ?case
    unfolding run_snoc by (rule cache_kept_step [OF IH(1) v' IH(2)])
qed


text \<open>The requests of each call.\<close>

lemma requests_of_simps [simp]:
  "requests_of j (S\<lparr> calls := c \<rparr>) = requests_of j S"
  "requests_of j (S\<lparr> api := a \<rparr>) = requests_of j S"
  "requests_of j (send_request k n S) = (if j = k then requests_of j S @ [n] else requests_of j S)"
  by (simp_all add: requests_of_def send_request_def)

lemma wire_send [simp]:
  "wire (send_request k n S) = wire S @ [(k, n)]"
  "calls (send_request k n S) = calls S"
  by (simp_all add: send_request_def)

lemma requests_of_step_settled:
  assumes "j < length (calls S)" "is_settled (calls S ! j)"
  shows "requests_of j (step S ev) = requests_of j S"
proof (cases ev)
  case (Call coinId)
  then show ?thesis
    using assms by (auto simp: fetchMoreInfo_call_def Let_def split: option.splits)
next
  case (TimerFires k)
  then show ?thesis
    using assms by (auto simp: fetchMoreInfo_after_timer_def split: stage.splits)
next
  case (Answer k out)
  then show ?thesis
    by (auto simp: fetchMoreInfo_after_request_def split: stage.splits sum.splits)
qed simp_all

lemma requests_of_run_settled:
  assumes "j < length (calls S)" "is_settled (calls S ! j)"
  shows "requests_of j (run evs S) = requests_of j S"
proof (induction evs rule: rev_induct)
  case Nil
  then show ?case by (simp add: run_Nil)
next
  case (snoc ev evs)
  have "j < length (calls (run evs S))"
    using assms(1) calls_run(1) [of S evs] by simp
  moreover have "is_settled (calls (run evs S) ! j)"
    using assms calls_run(3) [of j S evs] by simp
  ultimately have "requests_of j (step (run evs S) ev) = requests_of j (run evs S)"
    by (rule requests_of_step_settled)
  with snoc show ?case
    by (simp add: run_snoc)
qed

lemma wire_step:
  assumes b: "\<forall>p \<in> set (wire S). fst p < length (calls S)"
    and c: "\<forall>j < length (calls S). \<forall>rs. sent_at (calls S ! j) = Some rs \<longrightarrow> requests_of j S = rs"
  shows "(\<forall>p \<in> set (wire (step S ev)). fst p < length (calls (step S ev)))
       \<and> (\<forall>j < length (calls (step S ev)). \<forall>rs.
             sent_at (calls (step S ev) ! j) = Some rs \<longrightarrow> requests_of j (step S ev) = rs)"
proof -
  have new: "requests_of (length (calls S)) S = []"
    using b by (auto simp: requests_of_def filter_empty_conv)
  show ?thesis
  proof (cases ev)
    case (Call coinId)
    show ?thesis
      unfolding Call step.simps fetchMoreInfo_call_def Let_def
      using b c new
      by (auto simp: nth_append less_Suc_eq split: option.splits)
  next
    case (TimerFires k)
    show ?thesis
      unfolding TimerFires step.simps fetchMoreInfo_after_timer_def
      using b c
      by (auto simp: nth_list_update split: stage.splits)
  next
    case (Answer k out)
    show ?thesis
      unfolding Answer step.simps fetchMoreInfo_after_request_def
      using b c
      by (auto simp: nth_list_update split: stage.splits sum.splits)
  next
    case (Elapse d)
    then show ?thesis using b c by simp
  next
    case (Subscribe l)
    then show ?thesis using b c by simp
  next
    case (Unsubscribe l)
    then show ?thesis using b c by simp
  qed
qed

lemma wire_reachable:
  "(\<forall>p \<in> set (wire (run evs (start t))). fst p < length (calls (run evs (start t))))
   \<and> (\<forall>j < length (calls (run evs (start t))). \<forall>rs.
         sent_at (calls (run evs (start t)) ! j) = Some rs
           \<longrightarrow> requests_of j (run evs (start t)) = rs)"
proof (induction evs rule: rev_induct)
  case Nil
  then show ?case by (simp add: run_Nil start_def)
next
  case (snoc ev evs)
  then show ?case
    unfolding run_snoc by (intro wire_step) simp_all
qed

text \<open>
  A call that is neither answered from the cache nor stopped by the lock sends its
  request: at once when the last request was sent two seconds ago or longer, and
  otherwise when its throttle timer fires.
\<close>

lemma call_goes_to_network:
  assumes miss: "cached_valid (api S) nid = None" and nid: "nid = toLowerCase (trim coinId)"
    and un: "\<not> (isApiLocked (api S) \<and> now (api S) < lockEndTime (api S))"
  shows "(2000 \<le> now (api S) - lastMoreInfoRequestTime (api S) \<longrightarrow>
            calls (step S (Call coinId)) = calls S @ [FirstRequest nid]
          \<and> requests (api (step S (Call coinId))) = requests (api S) @ [nid])
       \<and> (now (api S) - lastMoreInfoRequestTime (api S) < 2000 \<longrightarrow>
            calls (step S (Call coinId))
              = calls S @ [ThrottleWait nid (lastMoreInfoRequestTime (api S) + 2000)]
          \<and> requests (api (step S (Call coinId))) = requests (api S)
          \<and> requests (api (step (step (step S (Call coinId))
                 (Elapse (nat (lastMoreInfoRequestTime (api S) + 2000 - now (api S)))))
                 (TimerFires (length (calls S)))))
              = requests (api S) @ [nid])"
proof (intro conjI impI)
  assume "2000 \<le> now (api S) - lastMoreInfoRequestTime (api S)"
  then show "calls (step S (Call coinId)) = calls S @ [FirstRequest nid]"
    and "requests (api (step S (Call coinId))) = requests (api S) @ [nid]"
    using call_sent [OF miss nid un] by simp_all
next
  assume th: "now (api S) - lastMoreInfoRequestTime (api S) < 2000"
  let ?due = "lastMoreInfoRequestTime (api S) + 2000"
  let ?S2 = "S\<lparr> calls := calls S @ [ThrottleWait nid ?due] \<rparr>"
  let ?S3 = "step ?S2 (Elapse (nat (?due - now (api S))))"
  have c: "step S (Call coinId) = ?S2"
    using call_throttled [OF miss nid un th] by simp
  show "calls (step S (Call coinId)) = calls S @ [ThrottleWait nid ?due]"
    and "requests (api (step S (Call coinId))) = requests (api S)"
    unfolding c by simp_all
  have "fetchMoreInfo_after_timer (length (calls S)) ?S3 =
       ?S3\<lparr> api := (api ?S3)\<lparr> lastMoreInfoRequestTime := now (api ?S3),
                          requests := requests (api ?S3) @ [nid] \<rparr>,
          calls := (calls ?S3)[length (calls S) := FirstRequest nid],
          wire := wire ?S3 @ [(length (calls S), nid)] \<rparr>"
    using th by (intro timer_fires_throttle [where due = ?due]) simp_all
  then have "requests (api (step ?S3 (TimerFires (length (calls S))))) = requests (api S) @ [nid]"
    by simp
  then show "requests (api (step (step (step S (Call coinId))
                 (Elapse (nat (?due - now (api S)))))
                 (TimerFires (length (calls S)))))
              = requests (api S) @ [nid]"
    unfolding c by simp
qed


text \<open>
  The two descriptions of the fetch agree. When one call runs alone, step by step, the
  module state it leaves and the result it settles with are those of \<open>fetchMoreInfo\<close>
  run from its call to its return.
\<close>

lemma fetchMoreInfo_as_steps:
  "api (run (alone coinId r1 r2 S) S) = snd (fetchMoreInfo coinId r1 r2 (api S))
   \<and> calls (run (alone coinId r1 r2 S) S)
       = calls S @ [Settled (toLowerCase (trim coinId)) (fst (fetchMoreInfo coinId r1 r2 (api S)))]"
proof (cases "cached_valid (api S) (toLowerCase (trim coinId))")
  case (Some d)
  then show ?thesis
    by (simp add: alone_def fetchMoreInfo_def run_def fetchMoreInfo_call_def Let_def)
next
  case None
  note miss = this
  show ?thesis
  proof (cases "isApiLocked (api S) \<and> now (api S) < lockEndTime (api S)")
    case True
    then show ?thesis
      using miss by (simp add: alone_def fetchMoreInfo_def run_def fetchMoreInfo_call_def Let_def)
  next
    case False
    note un = this
    let ?nid = "toLowerCase (trim coinId)"
    let ?k = "length (calls S)"
    let ?pre = "(if now (api S) - lastMoreInfoRequestTime (api S) < MORE_INFO_MIN_INTERVAL_MS
                then [Elapse (nat (MORE_INFO_MIN_INTERVAL_MS
                                   - (now (api S) - lastMoreInfoRequestTime (api S)))),
                      TimerFires ?k]
                else [])"
    let ?A = "run (Call coinId # ?pre) S"
    have A: "?A = S\<lparr> api := (throttle (api S))\<lparr> requests := requests (api S) @ [?nid] \<rparr>,
                     calls := calls S @ [FirstRequest ?nid],
                     wire := wire S @ [(?k, ?nid)] \<rparr>"
      using miss un
      by (auto simp: run_def fetchMoreInfo_call_def Let_def throttle_def fetchMoreInfo_after_timer_def send_request_def
            MORE_INFO_MIN_INTERVAL_MS_def)
    let ?st3 = "snd (doRequest ?nid r1 (throttle (api S)))"
    let ?B = "step ?A (Elapse (latency r1))"
    have B: "?B = S\<lparr> api := ?st3, calls := calls S @ [FirstRequest ?nid],
                     wire := wire S @ [(?k, ?nid)] \<rparr>"
      unfolding A by (simp add: doRequest_def)
    note net = fetchMoreInfo_network [OF miss un refl, of r1 r2]
    show ?thesis
    proof (cases "settle_request ?nid (outcome r1)")
      case (Inr d)
      have ev: "alone coinId r1 r2 S = (Call coinId # ?pre) @ [Elapse (latency r1), Answer ?k (outcome r1)]"
        using miss un Inr by (simp add: alone_def Let_def)
      have "run (alone coinId r1 r2 S) S = step ?B (Answer ?k (outcome r1))"
        unfolding ev run_append by (simp add: run_def)
      also have "\<dots> = S\<lparr> api := store_in_cache ?nid d ?st3,
                           calls := calls S @ [Settled ?nid (Inr d)],
                           wire := wire S @ [(?k, ?nid)] \<rparr>"
        unfolding B using Inr by (simp add: fetchMoreInfo_after_request_def)
      finally show ?thesis
        using net Inr by simp
    next
      case (Inl err)
      show ?thesis
      proof (cases "isRetryableError err")
        case False
        have ev: "alone coinId r1 r2 S = (Call coinId # ?pre) @ [Elapse (latency r1), Answer ?k (outcome r1)]"
          using miss un Inl False by (simp add: alone_def Let_def)
        have "run (alone coinId r1 r2 S) S = step ?B (Answer ?k (outcome r1))"
          unfolding ev run_append by (simp add: run_def)
        also have "\<dots> = S\<lparr> api := ?st3,
                             calls := calls S @ [Settled ?nid (Inl err)],
                             wire := wire S @ [(?k, ?nid)] \<rparr>"
          unfolding B using Inl False by (simp add: fetchMoreInfo_after_request_def)
        finally show ?thesis
          using net Inl False by simp
      next
        case True
        let ?st4 = "(if is_rate_limit err then setApiLocked ?st3 else ?st3)"
        let ?st5 = "after_first_failure ?nid r1 err (api S)"
        let ?st6 = "snd (doRequest ?nid r2 ?st5)"
        have ev: "alone coinId r1 r2 S =
            (Call coinId # ?pre) @ [Elapse (latency r1), Answer ?k (outcome r1)]
              @ [Elapse RETRY_WAIT_MS, TimerFires ?k, Elapse (latency r2)] @ [Answer ?k (outcome r2)]"
          using miss un Inl True by (simp add: alone_def Let_def)
        have C: "step ?B (Answer ?k (outcome r1)) =
                   S\<lparr> api := ?st4,
                      calls := calls S @ [RetryWait ?nid (now ?st3 + int RETRY_WAIT_MS)],
                      wire := wire S @ [(?k, ?nid)] \<rparr>"
          unfolding B using Inl True by (simp add: fetchMoreInfo_after_request_def)
        have D: "run [Elapse RETRY_WAIT_MS, TimerFires ?k, Elapse (latency r2)]
                   (step ?B (Answer ?k (outcome r1))) =
                   S\<lparr> api := ?st6,
                      calls := calls S @ [RetryRequest ?nid],
                      wire := wire S @ [(?k, ?nid), (?k, ?nid)] \<rparr>"
          unfolding C
          by (simp add: run_def fetchMoreInfo_after_timer_def send_request_def after_first_failure_def
                doRequest_def)
        have "run (alone coinId r1 r2 S) S =
                step (run [Elapse RETRY_WAIT_MS, TimerFires ?k, Elapse (latency r2)]
                        (step ?B (Answer ?k (outcome r1)))) (Answer ?k (outcome r2))"
          unfolding ev run_append by (simp add: run_def)
        also have "\<dots> = S\<lparr> api := (case settle_request ?nid (outcome r2) of
                                      Inr d \<Rightarrow> store_in_cache ?nid d ?st6 | Inl e \<Rightarrow> ?st6),
                             calls := calls S @ [Settled ?nid (settle_request ?nid (outcome r2))],
                             wire := wire S @ [(?k, ?nid), (?k, ?nid)] \<rparr>"
          unfolding D by (simp add: fetchMoreInfo_after_request_def split: sum.splits)
        finally show ?thesis
          using net Inl True by (simp split: sum.splits)
      qed
    qed
  qed
qed


section \<open>Examples of the detail fetch\<close>

lemma normalize_examples:
  "toLowerCase (trim ''btc'') = ''btc''"
  "toLowerCase (trim ''eth'') = ''eth''"
  "toLowerCase (trim '' BTC '') = ''btc''"
  by (simp_all add: toLowerCase_def trim_def is_space_def lower_char_def)


lemma example_settles:
  "settle_request ''btc'' (outcome reply_btc) = Inr btc_prices"
  "settle_request ''btc'' (outcome reply_not_object) = Inl (PlainError ''Invalid response from CoinGecko'')"
  "settle_request ''btc'' (outcome reply_rate_limited) =
     Inl (Axios \<lparr> status = Some 429, code = Some ''ERR_BAD_REQUEST'', message =
       ''Data temporarily unavailable due to high demand. Please try again in a minute.'' \<rparr>)"
  "settle_request ''btc'' (outcome reply_offline) =
     Inl (Axios \<lparr> status = None, code = Some ''ERR_NETWORK'', message =
       ''Network error. Check your connection or try again later.'' \<rparr>)"
  by (simp_all add: settle_request_def interceptor_detail reply_btc_def reply_not_object_def
        reply_rate_limited_def reply_offline_def btc_prices_def or_zero_def)

lemma example_latencies [simp]:
  "latency reply_btc = 100" "latency reply_not_object = 100"
  "latency reply_rate_limited = 100" "latency reply_offline = 100"
  by (simp_all add: reply_btc_def reply_not_object_def reply_rate_limited_def reply_offline_def)

lemma module_init_fields [simp]:
  "coinCache (module_init t) = Map.empty"
  "lastMoreInfoRequestTime (module_init t) = 0"
  "isApiLocked (module_init t) = False"
  "lockEndTime (module_init t) = 0"
  "lockTimeoutId (module_init t) = None"
  "lockListeners (module_init t) = []"
  "now (module_init t) = t"
  "requests (module_init t) = []"
  "notified (module_init t) = []"
  by (simp_all add: module_init_def)



lemma subscribe_fields [simp]:
  "coinCache (subscribeToMoreInfoLock l st) = coinCache st"
  "lastMoreInfoRequestTime (subscribeToMoreInfoLock l st) = lastMoreInfoRequestTime st"
  "isApiLocked (subscribeToMoreInfoLock l st) = isApiLocked st"
  "lockEndTime (subscribeToMoreInfoLock l st) = lockEndTime st"
  "lockTimeoutId (subscribeToMoreInfoLock l st) = lockTimeoutId st"
  "lockListeners (subscribeToMoreInfoLock l st) = lockListeners st @ [l]"
  "now (subscribeToMoreInfoLock l st) = now st"
  "requests (subscribeToMoreInfoLock l st) = requests st"
  "notified (subscribeToMoreInfoLock l st) = notified st"
  by (simp_all add: subscribeToMoreInfoLock_def)

lemma example_first_call:
  "fetchMoreInfo ''btc'' reply_btc reply_btc (module_init 1000000) =
     (Inr btc_prices, store_in_cache ''btc'' btc_prices
        (snd (doRequest ''btc'' reply_btc (throttle (module_init 1000000)))))"
  by (rule fetchMoreInfo_first_ok)
     (simp_all add: cached_valid_def normalize_examples example_settles)

lemma example_retried_call:
  "fetchMoreInfo ''btc'' reply_offline reply_btc (module_init 1000000) =
     (Inr btc_prices, store_in_cache ''btc'' btc_prices
        (snd (doRequest ''btc'' reply_btc
           (after_first_failure ''btc'' reply_offline
              (Axios \<lparr> status = None, code = Some ''ERR_NETWORK'', message =
                 ''Network error. Check your connection or try again later.'' \<rparr>)
              (module_init 1000000)))))"
proof -
  have "cached_valid (module_init 1000000) ''btc'' = None"
    by (simp add: cached_valid_def)
  moreover have "\<not> (isApiLocked (module_init 1000000)
          \<and> now (module_init 1000000) < lockEndTime (module_init 1000000))"
    by simp
  moreover have "''btc'' = toLowerCase (trim ''btc'')"
    by (simp add: normalize_examples)
  moreover note example_settles(4)
  moreover have "isRetryableError (Axios \<lparr> status = None, code = Some ''ERR_NETWORK'', message =
                 ''Network error. Check your connection or try again later.'' \<rparr>)"
    by simp
  ultimately show ?thesis
    by (simp add: fetchMoreInfo_retry example_settles)
qed

lemma example_limited_call:
  "fetchMoreInfo ''btc'' reply_rate_limited reply_btc (module_init 1000000) =
     (Inr btc_prices, store_in_cache ''btc'' btc_prices
        (snd (doRequest ''btc'' reply_btc
           (after_first_failure ''btc'' reply_rate_limited
              (Axios \<lparr> status = Some 429, code = Some ''ERR_BAD_REQUEST'', message =
       ''Data temporarily unavailable due to high demand. Please try again in a minute.'' \<rparr>)
              (module_init 1000000)))))"
proof -
  have "cached_valid (module_init 1000000) ''btc'' = None"
    by (simp add: cached_valid_def)
  moreover have "\<not> (isApiLocked (module_init 1000000)
          \<and> now (module_init 1000000) < lockEndTime (module_init 1000000))"
    by simp
  moreover have "''btc'' = toLowerCase (trim ''btc'')"
    by (simp add: normalize_examples)
  moreover note example_settles(3)
  moreover have "isRetryableError (Axios \<lparr> status = Some 429, code = Some ''ERR_BAD_REQUEST'', message =
       ''Data temporarily unavailable due to high demand. Please try again in a minute.'' \<rparr>)"
    by simp
  ultimately show ?thesis
    by (simp add: fetchMoreInfo_retry example_settles)
qed

lemma norm_ex:
  "toLowerCase (trim ''bitcoin'') = ''bitcoin''"
  "toLowerCase (trim ''ethereum'') = ''ethereum''"
  "toLowerCase (trim ''solana'') = ''solana''"
  "toLowerCase (trim '' BTC '') = ''btc''"
  "toLowerCase (trim ''btc'') = ''btc''"
  by (simp_all add: toLowerCase_def trim_def is_space_def lower_char_def)

lemmas run_eval = run_def start_def module_init_def fetchMoreInfo_call_def norm_ex cached_valid_def Let_def
     MORE_INFO_MIN_INTERVAL_MS_def COIN_CACHE_TTL_MS_def send_request_def
     subscribeToMoreInfoLock_def unsubscribe_def
     fetchMoreInfo_after_request_def fetchMoreInfo_after_timer_def settle_rejected interceptor_detail rate_limit_error_def
     elapse_def lock_timeout_fires_def setApiLocked_def LOCK_DURATION_MS_def RETRY_WAIT_MS_def
     busy_error_def store_in_cache_def


section \<open>The cache of the detail fetch\<close>

text \<open>
  Claim C4, as the fetch is written. Take any state that the module reaches from its
  start in which call \<open>k\<close> waits for the answer to a request for the identifier \<open>nid\<close>
  (its first request or its retry), and let the network answer with prices \<open>d\<close> at
  the time \<open>t0\<close>.

  \<^item> The call returns \<open>d\<close>, and the cache holds \<open>d\<close> under \<open>nid\<close> with the time \<open>t0\<close>; no
    other entry of the cache changes.
  \<^item> A call whose first request was answered has sent that one request and sends no
    other, whatever happens afterwards; a call answered on its retry has sent two.
  \<^item> Whatever happens afterwards (time passing, calls and answers for this or other
    identifiers, timers, the rate-limit lock), the cache keeps an entry for \<open>nid\<close>,
    dated \<open>t0\<close> or later. When no other call for \<open>nid\<close> was waiting at the time of the
    answer, the entry is \<open>d\<close> with the time \<open>t0\<close> for the whole of the next two minutes.
  \<^item> A call with the same normalized identifier, made while the entry is younger
    than 120000 ms, returns the prices of the entry at once and never sends a request.
  \<^item> A call made once the entry is 120000 ms old finds it treated as absent: with the
    rate-limit lock active it fails with the busy error and sends nothing, and
    otherwise it sends a new request, at once or when its throttle wait is over.
\<close>

theorem detail_cache_ttl:
  assumes reach: "S = run evs0 (start t)"
    and inflight: "k < length (calls S)"
                  "calls S ! k = FirstRequest nid \<or> calls S ! k = RetryRequest nid"
    and priced: "settle_request nid out = Inr d"
    and later: "S' = run evs (step S (Answer k out))"
    and same: "toLowerCase (trim coinId) = nid"
  shows "calls (step S (Answer k out)) ! k = Settled nid (Inr d)
       \<and> coinCache (api (step S (Answer k out))) nid
           = Some \<lparr> data = d, fetchedAt = now (api S) \<rparr>
       \<and> (\<forall>other. other \<noteq> nid \<longrightarrow>
             coinCache (api (step S (Answer k out))) other = coinCache (api S) other)
       \<and> (calls S ! k = FirstRequest nid \<longrightarrow> requests_of k S' = [nid])
       \<and> (calls S ! k = RetryRequest nid \<longrightarrow> requests_of k S' = [nid, nid])
       \<and> (\<exists>c. coinCache (api S') nid = Some c
             \<and> now (api S) \<le> fetchedAt c \<and> fetchedAt c \<le> now (api S')
             \<and> (now (api S') - fetchedAt c < 120000 \<longrightarrow>
                   step S' (Call coinId) = S'\<lparr> calls := calls S' @ [Settled nid (Inr (data c))] \<rparr>
                 \<and> (\<forall>evs2. requests_of (length (calls S')) (run evs2 (step S' (Call coinId))) = []))
             \<and> (120000 \<le> now (api S') - fetchedAt c \<longrightarrow>
                   cached_valid (api S') nid = None
                 \<and> (isApiLocked (api S') \<and> now (api S') < lockEndTime (api S') \<longrightarrow>
                       step S' (Call coinId) =
                         S'\<lparr> calls := calls S' @
                           [Settled nid
                              (Inl (PlainError ''The server is busy. Please wait 10 seconds...''))] \<rparr>)
                 \<and> (\<not> (isApiLocked (api S') \<and> now (api S') < lockEndTime (api S')) \<longrightarrow>
                       (2000 \<le> now (api S') - lastMoreInfoRequestTime (api S') \<longrightarrow>
                          calls (step S' (Call coinId)) = calls S' @ [FirstRequest nid]
                        \<and> requests (api (step S' (Call coinId))) = requests (api S') @ [nid])
                     \<and> (now (api S') - lastMoreInfoRequestTime (api S') < 2000 \<longrightarrow>
                          calls (step S' (Call coinId))
                            = calls S' @ [ThrottleWait nid (lastMoreInfoRequestTime (api S') + 2000)]
                        \<and> requests (api (step S' (Call coinId))) = requests (api S')
                        \<and> requests (api (step (step (step S' (Call coinId))
                               (Elapse (nat (lastMoreInfoRequestTime (api S') + 2000 - now (api S')))))
                               (TimerFires (length (calls S')))))
                            = requests (api S') @ [nid]))))
       \<and> ((\<forall>j < length (calls S). j \<noteq> k \<and> stage_id (calls S ! j) = nid \<longrightarrow> is_settled (calls S ! j))
            \<and> now (api S') - now (api S) < 120000 \<longrightarrow>
          coinCache (api S') nid = Some \<lparr> data = d, fetchedAt = now (api S) \<rparr>)"
proof -
  let ?S1 = "step S (Answer k out)"
  let ?t0 = "now (api S)"
  have S1: "?S1 = S\<lparr> api := store_in_cache nid d (api S),
                     calls := (calls S)[k := Settled nid (Inr d)] \<rparr>"
    using inflight priced by (auto simp: fetchMoreInfo_after_request_def)
  have a1: "calls ?S1 ! k = Settled nid (Inr d)"
    unfolding S1 using inflight(1) by simp
  have a2: "coinCache (api ?S1) nid = Some \<lparr> data = d, fetchedAt = ?t0 \<rparr>"
    unfolding S1 by simp
  have a3: "\<forall>other. other \<noteq> nid \<longrightarrow> coinCache (api ?S1) other = coinCache (api S) other"
    unfolding S1 by simp
  have k1: "k < length (calls ?S1)" and s1: "is_settled (calls ?S1 ! k)"
    unfolding S1 using inflight(1) by simp_all
  have frozen: "requests_of k S' = requests_of k S"
  proof -
    have "requests_of k ?S1 = requests_of k S"
      unfolding S1 by simp
    moreover have "requests_of k S' = requests_of k ?S1"
      unfolding later using k1 s1 by (rule requests_of_run_settled)
    ultimately show ?thesis
      by simp
  qed
  have a4: "calls S ! k = FirstRequest nid \<longrightarrow> requests_of k S' = [nid]"
  proof
    assume f: "calls S ! k = FirstRequest nid"
    have "requests_of k S = [nid]"
      using wire_reachable [of evs0 t] inflight(1) f unfolding reach by simp
    then show "requests_of k S' = [nid]"
      using frozen by simp
  qed
  have a4': "calls S ! k = RetryRequest nid \<longrightarrow> requests_of k S' = [nid, nid]"
  proof
    assume f: "calls S ! k = RetryRequest nid"
    have "requests_of k S = [nid, nid]"
      using wire_reachable [of evs0 t] inflight(1) f unfolding reach by simp
    then show "requests_of k S' = [nid, nid]"
      using frozen by simp
  qed
  obtain c where c: "coinCache (api S') nid = Some c" "?t0 \<le> fetchedAt c"
      "fetchedAt c \<le> now (api S')"
    using cache_entry_run [of ?S1 nid "\<lparr> data = d, fetchedAt = ?t0 \<rparr>" ?t0 evs]
    unfolding later using a2 now_step [of S "Answer k out"] by auto
  have reachS': "S' = run (evs0 @ [Answer k out] @ evs) (start t)"
    unfolding later reach by (simp add: run_append run_snoc run_def)
  have hit: "now (api S') - fetchedAt c < 120000 \<longrightarrow>
                   step S' (Call coinId) = S'\<lparr> calls := calls S' @ [Settled nid (Inr (data c))] \<rparr>
                 \<and> (\<forall>evs2. requests_of (length (calls S')) (run evs2 (step S' (Call coinId))) = [])"
  proof
    assume v: "now (api S') - fetchedAt c < 120000"
    then have cv: "cached_valid (api S') nid = Some (data c)"
      using c(1) by (simp add: cached_valid_def COIN_CACHE_TTL_MS_def)
    let ?S2 = "S'\<lparr> calls := calls S' @ [Settled nid (Inr (data c))] \<rparr>"
    have st: "step S' (Call coinId) = ?S2"
      using call_hit [OF cv same [symmetric]] by simp
    have "\<forall>p \<in> set (wire S'). fst p < length (calls S')"
      unfolding reachS' using wire_reachable by blast
    then have "requests_of (length (calls S')) S' = []"
      by (auto simp: requests_of_def filter_empty_conv)
    then have zero: "requests_of (length (calls S')) ?S2 = []"
      by simp
    have "requests_of (length (calls S')) (run evs2 ?S2) = requests_of (length (calls S')) ?S2" for evs2
      by (rule requests_of_run_settled) simp_all
    with zero st show "step S' (Call coinId) = ?S2
        \<and> (\<forall>evs2. requests_of (length (calls S')) (run evs2 (step S' (Call coinId))) = [])"
      by simp
  qed
  have expired: "120000 \<le> now (api S') - fetchedAt c \<longrightarrow>
                   cached_valid (api S') nid = None
                 \<and> (isApiLocked (api S') \<and> now (api S') < lockEndTime (api S') \<longrightarrow>
                       step S' (Call coinId) =
                         S'\<lparr> calls := calls S' @
                           [Settled nid
                              (Inl (PlainError ''The server is busy. Please wait 10 seconds...''))] \<rparr>)
                 \<and> (\<not> (isApiLocked (api S') \<and> now (api S') < lockEndTime (api S')) \<longrightarrow>
                       (2000 \<le> now (api S') - lastMoreInfoRequestTime (api S') \<longrightarrow>
                          calls (step S' (Call coinId)) = calls S' @ [FirstRequest nid]
                        \<and> requests (api (step S' (Call coinId))) = requests (api S') @ [nid])
                     \<and> (now (api S') - lastMoreInfoRequestTime (api S') < 2000 \<longrightarrow>
                          calls (step S' (Call coinId))
                            = calls S' @ [ThrottleWait nid (lastMoreInfoRequestTime (api S') + 2000)]
                        \<and> requests (api (step S' (Call coinId))) = requests (api S')
                        \<and> requests (api (step (step (step S' (Call coinId))
                               (Elapse (nat (lastMoreInfoRequestTime (api S') + 2000 - now (api S')))))
                               (TimerFires (length (calls S')))))
                            = requests (api S') @ [nid]))"
  proof
    assume x: "120000 \<le> now (api S') - fetchedAt c"
    then have miss: "cached_valid (api S') nid = None"
      using c(1) by (simp add: cached_valid_def COIN_CACHE_TTL_MS_def)
    have busy: "isApiLocked (api S') \<and> now (api S') < lockEndTime (api S') \<longrightarrow>
                       step S' (Call coinId) =
                         S'\<lparr> calls := calls S' @
                           [Settled nid
                              (Inl (PlainError ''The server is busy. Please wait 10 seconds...''))] \<rparr>"
      using call_busy [OF miss same [symmetric]] by (simp add: busy_error_def)
    have net: "\<not> (isApiLocked (api S') \<and> now (api S') < lockEndTime (api S')) \<longrightarrow>
                       (2000 \<le> now (api S') - lastMoreInfoRequestTime (api S') \<longrightarrow>
                          calls (step S' (Call coinId)) = calls S' @ [FirstRequest nid]
                        \<and> requests (api (step S' (Call coinId))) = requests (api S') @ [nid])
                     \<and> (now (api S') - lastMoreInfoRequestTime (api S') < 2000 \<longrightarrow>
                          calls (step S' (Call coinId))
                            = calls S' @ [ThrottleWait nid (lastMoreInfoRequestTime (api S') + 2000)]
                        \<and> requests (api (step S' (Call coinId))) = requests (api S')
                        \<and> requests (api (step (step (step S' (Call coinId))
                               (Elapse (nat (lastMoreInfoRequestTime (api S') + 2000 - now (api S')))))
                               (TimerFires (length (calls S')))))
                            = requests (api S') @ [nid])"
      using call_goes_to_network [OF miss same [symmetric]] by blast
    from miss busy net show "cached_valid (api S') nid = None
                 \<and> (isApiLocked (api S') \<and> now (api S') < lockEndTime (api S') \<longrightarrow>
                       step S' (Call coinId) =
                         S'\<lparr> calls := calls S' @
                           [Settled nid
                              (Inl (PlainError ''The server is busy. Please wait 10 seconds...''))] \<rparr>)
                 \<and> (\<not> (isApiLocked (api S') \<and> now (api S') < lockEndTime (api S')) \<longrightarrow>
                       (2000 \<le> now (api S') - lastMoreInfoRequestTime (api S') \<longrightarrow>
                          calls (step S' (Call coinId)) = calls S' @ [FirstRequest nid]
                        \<and> requests (api (step S' (Call coinId))) = requests (api S') @ [nid])
                     \<and> (now (api S') - lastMoreInfoRequestTime (api S') < 2000 \<longrightarrow>
                          calls (step S' (Call coinId))
                            = calls S' @ [ThrottleWait nid (lastMoreInfoRequestTime (api S') + 2000)]
                        \<and> requests (api (step S' (Call coinId))) = requests (api S')
                        \<and> requests (api (step (step (step S' (Call coinId))
                               (Elapse (nat (lastMoreInfoRequestTime (api S') + 2000 - now (api S')))))
                               (TimerFires (length (calls S')))))
                            = requests (api S') @ [nid]))"
      by (intro conjI)
  qed
  have a5: "\<exists>c. coinCache (api S') nid = Some c
             \<and> now (api S) \<le> fetchedAt c \<and> fetchedAt c \<le> now (api S')
             \<and> (now (api S') - fetchedAt c < 120000 \<longrightarrow>
                   step S' (Call coinId) = S'\<lparr> calls := calls S' @ [Settled nid (Inr (data c))] \<rparr>
                 \<and> (\<forall>evs2. requests_of (length (calls S')) (run evs2 (step S' (Call coinId))) = []))
             \<and> (120000 \<le> now (api S') - fetchedAt c \<longrightarrow>
                   cached_valid (api S') nid = None
                 \<and> (isApiLocked (api S') \<and> now (api S') < lockEndTime (api S') \<longrightarrow>
                       step S' (Call coinId) =
                         S'\<lparr> calls := calls S' @
                           [Settled nid
                              (Inl (PlainError ''The server is busy. Please wait 10 seconds...''))] \<rparr>)
                 \<and> (\<not> (isApiLocked (api S') \<and> now (api S') < lockEndTime (api S')) \<longrightarrow>
                       (2000 \<le> now (api S') - lastMoreInfoRequestTime (api S') \<longrightarrow>
                          calls (step S' (Call coinId)) = calls S' @ [FirstRequest nid]
                        \<and> requests (api (step S' (Call coinId))) = requests (api S') @ [nid])
                     \<and> (now (api S') - lastMoreInfoRequestTime (api S') < 2000 \<longrightarrow>
                          calls (step S' (Call coinId))
                            = calls S' @ [ThrottleWait nid (lastMoreInfoRequestTime (api S') + 2000)]
                        \<and> requests (api (step S' (Call coinId))) = requests (api S')
                        \<and> requests (api (step (step (step S' (Call coinId))
                               (Elapse (nat (lastMoreInfoRequestTime (api S') + 2000 - now (api S')))))
                               (TimerFires (length (calls S')))))
                            = requests (api S') @ [nid])))"
    using c hit expired by (intro exI [of _ c] conjI)
  have a6: "(\<forall>j < length (calls S). j \<noteq> k \<and> stage_id (calls S ! j) = nid \<longrightarrow> is_settled (calls S ! j))
            \<and> now (api S') - now (api S) < 120000 \<longrightarrow>
          coinCache (api S') nid = Some \<lparr> data = d, fetchedAt = now (api S) \<rparr>"
  proof
    assume h: "(\<forall>j < length (calls S). j \<noteq> k \<and> stage_id (calls S ! j) = nid \<longrightarrow> is_settled (calls S ! j))
            \<and> now (api S') - now (api S) < 120000"
    have q: "\<forall>j < length (calls ?S1). stage_id (calls ?S1 ! j) = nid \<longrightarrow> is_settled (calls ?S1 ! j)"
    proof (intro allI impI)
      fix j
      assume j: "j < length (calls ?S1)" and i: "stage_id (calls ?S1 ! j) = nid"
      show "is_settled (calls ?S1 ! j)"
      proof (cases "j = k")
        case True
        then show ?thesis using s1 by simp
      next
        case False
        then have "calls ?S1 ! j = calls S ! j" and "j < length (calls S)"
          using j unfolding S1 by simp_all
        with h i False show ?thesis by simp
      qed
    qed
    have v: "now (api (run evs ?S1)) - ?t0 < 120000"
      using h unfolding later by simp
    show "coinCache (api S') nid = Some \<lparr> data = d, fetchedAt = now (api S) \<rparr>"
      unfolding later using cache_kept_run [OF a2 q v] by simp
  qed
  from a1 a2 a3 a4 a4' a5 a6 show ?thesis
    by (intro conjI)
qed


text \<open>
  An example from a fresh module at time 1000000. The call for BTC (with spaces) sends
  its request at once and is answered with prices at 1000100. A call for ethereum
  follows, is throttled until 1002000, sends its request and is answered at 1002150.
  At 1062150 the entry for btc is still the first answer; a call for btc returns it
  and the requests sent are the same two as before. In the second run nothing happens
  for 120000 ms after the answer; the call for btc then sends a new request.
\<close>

theorem detail_cache_ttl_witness:
  "calls (run [Call '' BTC '', Elapse 100] (start 1000000)) ! 0 = FirstRequest ''btc''
   \<and> settle_request ''btc'' (outcome reply_btc) = Inr btc_prices
   \<and> toLowerCase (trim ''btc'') = ''btc''
   \<and> requests (api (run [Call ''ethereum'', Elapse 1900, TimerFires 1, Elapse 150,
                           Answer 1 (Resolved eth_body), Elapse 60000]
                 (step (run [Call '' BTC '', Elapse 100] (start 1000000))
                       (Answer 0 (outcome reply_btc))))) = [''btc'', ''ethereum'']
   \<and> requests_of 0 (run [Call ''ethereum'', Elapse 1900, TimerFires 1, Elapse 150,
                           Answer 1 (Resolved eth_body), Elapse 60000]
                 (step (run [Call '' BTC '', Elapse 100] (start 1000000))
                       (Answer 0 (outcome reply_btc)))) = [''btc'']
   \<and> coinCache (api (run [Call ''ethereum'', Elapse 1900, TimerFires 1, Elapse 150,
                           Answer 1 (Resolved eth_body), Elapse 60000]
                 (step (run [Call '' BTC '', Elapse 100] (start 1000000))
                       (Answer 0 (outcome reply_btc))))) ''btc''
       = Some \<lparr> data = btc_prices, fetchedAt = 1000100 \<rparr>
   \<and> now (api (run [Call ''ethereum'', Elapse 1900, TimerFires 1, Elapse 150,
                           Answer 1 (Resolved eth_body), Elapse 60000]
                 (step (run [Call '' BTC '', Elapse 100] (start 1000000))
                       (Answer 0 (outcome reply_btc))))) = 1062150
   \<and> calls (step (run [Call ''ethereum'', Elapse 1900, TimerFires 1, Elapse 150,
                           Answer 1 (Resolved eth_body), Elapse 60000]
                 (step (run [Call '' BTC '', Elapse 100] (start 1000000))
                       (Answer 0 (outcome reply_btc))))
             (Call ''btc'')) ! 2 = Settled ''btc'' (Inr btc_prices)
   \<and> requests (api (step (run [Call ''ethereum'', Elapse 1900, TimerFires 1, Elapse 150,
                           Answer 1 (Resolved eth_body), Elapse 60000]
                 (step (run [Call '' BTC '', Elapse 100] (start 1000000))
                       (Answer 0 (outcome reply_btc))))
             (Call ''btc''))) = [''btc'', ''ethereum'']
   \<and> calls (step (run [Elapse 120000]
                 (step (run [Call '' BTC '', Elapse 100] (start 1000000))
                       (Answer 0 (outcome reply_btc))))
             (Call ''btc'')) = [Settled ''btc'' (Inr btc_prices), FirstRequest ''btc'']
   \<and> requests (api (step (run [Elapse 120000]
                 (step (run [Call '' BTC '', Elapse 100] (start 1000000))
                       (Answer 0 (outcome reply_btc))))
             (Call ''btc''))) = [''btc'', ''btc'']"
proof -
  let ?S = "run [Call '' BTC '', Elapse 100] (start 1000000)"
  let ?S1 = "step ?S (Answer 0 (outcome reply_btc))"
  let ?S' = "run [Call ''ethereum'', Elapse 1900, TimerFires 1, Elapse 150,
                  Answer 1 (Resolved eth_body), Elapse 60000] ?S1"
  let ?S'' = "run [Elapse 120000] ?S1"
  have settle: "settle_request ''btc'' (outcome reply_btc) = Inr btc_prices"
    by (simp add: settle_request_def reply_btc_def btc_prices_def or_zero_def)
  have settle_eth: "settle_request ''ethereum'' (Resolved eth_body)
      = Inr \<lparr> usd = Finite 3000, eur = Finite 2800, ils = Finite 11000 \<rparr>"
    by (simp add: settle_request_def eth_body_def or_zero_def)
  have S: "?S = \<lparr> api = \<lparr> coinCache = Map.empty, lastMoreInfoRequestTime = 1000000,
                          isApiLocked = False, lockEndTime = 0, lockTimeoutId = None,
                          lockListeners = [], now = 1000100, requests = [''btc''],
                          notified = [] \<rparr>,
                  calls = [FirstRequest ''btc''], wire = [(0, ''btc'')] \<rparr>"
    by (simp add: run_eval)
  have S1: "?S1 = \<lparr> api = \<lparr> coinCache = [''btc'' \<mapsto> \<lparr> data = btc_prices, fetchedAt = 1000100 \<rparr>],
                          lastMoreInfoRequestTime = 1000000,
                          isApiLocked = False, lockEndTime = 0, lockTimeoutId = None,
                          lockListeners = [], now = 1000100, requests = [''btc''],
                          notified = [] \<rparr>,
                  calls = [Settled ''btc'' (Inr btc_prices)], wire = [(0, ''btc'')] \<rparr>"
    unfolding S by (simp add: fetchMoreInfo_after_request_def settle store_in_cache_def)
  have S': "?S' = \<lparr> api = \<lparr> coinCache = [''btc'' \<mapsto> \<lparr> data = btc_prices, fetchedAt = 1000100 \<rparr>,
                                       ''ethereum'' \<mapsto>
                                         \<lparr> data = \<lparr> usd = Finite 3000, eur = Finite 2800,
                                                     ils = Finite 11000 \<rparr>,
                                           fetchedAt = 1002150 \<rparr>],
                          lastMoreInfoRequestTime = 1002000,
                          isApiLocked = False, lockEndTime = 0, lockTimeoutId = None,
                          lockListeners = [], now = 1062150, requests = [''btc'', ''ethereum''],
                          notified = [] \<rparr>,
                  calls = [Settled ''btc'' (Inr btc_prices),
                           Settled ''ethereum''
                             (Inr \<lparr> usd = Finite 3000, eur = Finite 2800, ils = Finite 11000 \<rparr>)],
                  wire = [(0, ''btc''), (1, ''ethereum'')] \<rparr>"
    unfolding S1
    by (simp add: run_def fetchMoreInfo_call_def norm_ex cached_valid_def Let_def MORE_INFO_MIN_INTERVAL_MS_def
          COIN_CACHE_TTL_MS_def send_request_def fetchMoreInfo_after_request_def fetchMoreInfo_after_timer_def settle_eth
          elapse_def store_in_cache_def)
  have S'': "?S'' = \<lparr> api = \<lparr> coinCache = [''btc'' \<mapsto> \<lparr> data = btc_prices, fetchedAt = 1000100 \<rparr>],
                          lastMoreInfoRequestTime = 1000000,
                          isApiLocked = False, lockEndTime = 0, lockTimeoutId = None,
                          lockListeners = [], now = 1120100, requests = [''btc''],
                          notified = [] \<rparr>,
                  calls = [Settled ''btc'' (Inr btc_prices)], wire = [(0, ''btc'')] \<rparr>"
    unfolding S1 by (simp add: run_def elapse_def)
  have h1: "0 < length (calls ?S)"
    and h2: "calls ?S ! 0 = FirstRequest ''btc'' \<or> calls ?S ! 0 = RetryRequest ''btc''"
    and h2': "calls ?S ! 0 = FirstRequest ''btc''"
    unfolding S by simp_all
  have h3: "toLowerCase (trim ''btc'') = ''btc''"
    by (rule norm_ex)
  note w = detail_cache_ttl [OF refl h1 h2 settle refl h3]
  from w [of "[Call ''ethereum'', Elapse 1900, TimerFires 1, Elapse 150,
                  Answer 1 (Resolved eth_body), Elapse 60000]"] h2'
  have first: "requests_of 0 ?S' = [''btc'']"
    by blast
  from w [of "[Call ''ethereum'', Elapse 1900, TimerFires 1, Elapse 150,
                  Answer 1 (Resolved eth_body), Elapse 60000]"]
  obtain c where c: "coinCache (api ?S') ''btc'' = Some c"
    "now (api ?S') - fetchedAt c < 120000 \<longrightarrow>
        step ?S' (Call ''btc'') = ?S'\<lparr> calls := calls ?S' @ [Settled ''btc'' (Inr (data c))] \<rparr>"
    by blast
  have e: "coinCache (api ?S') ''btc'' = Some \<lparr> data = btc_prices, fetchedAt = 1000100 \<rparr>"
    and n: "now (api ?S') = 1062150"
    and r: "requests (api ?S') = [''btc'', ''ethereum'']"
    unfolding S' by simp_all
  from c(1) e have ceq: "c = \<lparr> data = btc_prices, fetchedAt = 1000100 \<rparr>"
    by simp
  have "now (api ?S') - fetchedAt c < 120000"
    unfolding ceq n by simp
  with c(2) have hit: "step ?S' (Call ''btc'')
      = ?S'\<lparr> calls := calls ?S' @ [Settled ''btc'' (Inr (data c))] \<rparr>"
    by blast
  have hit1: "calls (step ?S' (Call ''btc'')) ! 2 = Settled ''btc'' (Inr btc_prices)"
    and hit2: "requests (api (step ?S' (Call ''btc''))) = [''btc'', ''ethereum'']"
    unfolding hit unfolding S' ceq by simp_all
  from w [of "[Elapse 120000]"]
  obtain c' where c': "coinCache (api ?S'') ''btc'' = Some c'"
    "120000 \<le> now (api ?S'') - fetchedAt c' \<longrightarrow>
        (\<not> (isApiLocked (api ?S'') \<and> now (api ?S'') < lockEndTime (api ?S'')) \<longrightarrow>
           (2000 \<le> now (api ?S'') - lastMoreInfoRequestTime (api ?S'') \<longrightarrow>
              calls (step ?S'' (Call ''btc'')) = calls ?S'' @ [FirstRequest ''btc'']
            \<and> requests (api (step ?S'' (Call ''btc''))) = requests (api ?S'') @ [''btc'']))"
    by blast
  have "c' = \<lparr> data = btc_prices, fetchedAt = 1000100 \<rparr>"
    using c'(1) unfolding S'' by simp
  then have "120000 \<le> now (api ?S'') - fetchedAt c'"
    and "\<not> (isApiLocked (api ?S'') \<and> now (api ?S'') < lockEndTime (api ?S''))"
    and "2000 \<le> now (api ?S'') - lastMoreInfoRequestTime (api ?S'')"
    unfolding S'' by simp_all
  with c'(2) have "calls (step ?S'' (Call ''btc'')) = calls ?S'' @ [FirstRequest ''btc'']"
    and "requests (api (step ?S'' (Call ''btc''))) = requests (api ?S'') @ [''btc'']"
    by blast+
  then have x1: "calls (step ?S'' (Call ''btc''))
        = [Settled ''btc'' (Inr btc_prices), FirstRequest ''btc'']"
    and x2: "requests (api (step ?S'' (Call ''btc''))) = [''btc'', ''btc'']"
    unfolding S'' by simp_all
  from h2' settle h3 r first e n hit1 hit2 x1 x2 show ?thesis
    by (intro conjI)
qed


lemma example_pair_with_retry:
  "fst (fetchMoreInfo ''btc'' reply_offline reply_btc (module_init 1000000)) = Inr btc_prices
   \<and> fst (fetchMoreInfo ''btc'' reply_btc reply_btc
        (elapse 1000 (snd (fetchMoreInfo ''btc'' reply_offline reply_btc (module_init 1000000)))))
        = Inr btc_prices
   \<and> requests (snd (fetchMoreInfo ''btc'' reply_btc reply_btc
        (elapse 1000 (snd (fetchMoreInfo ''btc'' reply_offline reply_btc (module_init 1000000))))))
        = [''btc'', ''btc'']"
proof -
  let ?s1 = "snd (fetchMoreInfo ''btc'' reply_offline reply_btc (module_init 1000000))"
  have "cached_valid (elapse 1000 ?s1) (toLowerCase (trim ''btc'')) = Some btc_prices"
    by (simp add: example_retried_call cached_valid_elapse_store normalize_examples)
  then have "fetchMoreInfo ''btc'' reply_btc reply_btc (elapse 1000 ?s1)
               = (Inr btc_prices, elapse 1000 ?s1)"
    by (rule fetchMoreInfo_hit)
  moreover have "requests ?s1 = [''btc'', ''btc'']"
    by (simp add: example_retried_call)
  ultimately show ?thesis
    by (simp add: example_retried_call)
qed

lemma rate_limited_settles:
  "settle_request nid (outcome reply_rate_limited) =
     Inl (Axios \<lparr> status = Some 429, code = Some ''ERR_BAD_REQUEST'', message =
       ''Data temporarily unavailable due to high demand. Please try again in a minute.'' \<rparr>)"
  by (simp add: settle_request_def interceptor_detail reply_rate_limited_def)

lemma example_expired_while_locked:
  "coinCache (elapse 2000 (snd (fetchMoreInfo ''eth'' reply_rate_limited reply_rate_limited
       (elapse 115000 (snd (fetchMoreInfo ''btc'' reply_btc reply_btc (module_init 1000000)))))))
     ''btc'' = Some \<lparr> data = btc_prices, fetchedAt = 1000100 \<rparr>
   \<and> now (elapse 2000 (snd (fetchMoreInfo ''eth'' reply_rate_limited reply_rate_limited
       (elapse 115000 (snd (fetchMoreInfo ''btc'' reply_btc reply_btc (module_init 1000000)))))))
     = 1120300
   \<and> fetchMoreInfo ''btc'' reply_btc reply_btc
       (elapse 2000 (snd (fetchMoreInfo ''eth'' reply_rate_limited reply_rate_limited
         (elapse 115000 (snd (fetchMoreInfo ''btc'' reply_btc reply_btc (module_init 1000000)))))))
     = (Inl (PlainError ''The server is busy. Please wait 10 seconds...''),
        elapse 2000 (snd (fetchMoreInfo ''eth'' reply_rate_limited reply_rate_limited
         (elapse 115000 (snd (fetchMoreInfo ''btc'' reply_btc reply_btc (module_init 1000000)))))))"
proof -
  let ?s1 = "snd (fetchMoreInfo ''btc'' reply_btc reply_btc (module_init 1000000))"
  let ?e1 = "elapse 115000 ?s1"
  let ?err = "Axios \<lparr> status = Some 429, code = Some ''ERR_BAD_REQUEST'', message =
       ''Data temporarily unavailable due to high demand. Please try again in a minute.'' \<rparr>"
  let ?s2 = "snd (fetchMoreInfo ''eth'' reply_rate_limited reply_rate_limited ?e1)"
  let ?s3 = "elapse 2000 ?s2"
  have s1: "?s1 = store_in_cache ''btc'' btc_prices
        (snd (doRequest ''btc'' reply_btc (throttle (module_init 1000000))))"
    by (simp add: example_first_call)
  have c1: "coinCache ?s1 = [''btc'' \<mapsto> \<lparr> data = btc_prices, fetchedAt = 1000100 \<rparr>]"
    and n1: "now ?s1 = 1000100" and l1: "\<not> isApiLocked ?e1"
    and t1: "lastMoreInfoRequestTime ?s1 = 1000000"
    unfolding s1 by (auto dest!: elapse_locked_imp doRequest_locked_imp throttle_locked_imp)
  have m: "cached_valid ?e1 ''eth'' = None"
    by (simp add: cached_valid_def c1)
  have u: "\<not> (isApiLocked ?e1 \<and> now ?e1 < lockEndTime ?e1)"
    using l1 by simp
  have r: "isRetryableError ?err" and rl: "is_rate_limit ?err"
    by simp_all
  have f2: "fetchMoreInfo ''eth'' reply_rate_limited reply_rate_limited ?e1 =
      (Inl ?err, snd (doRequest ''eth'' reply_rate_limited
                        (after_first_failure ''eth'' reply_rate_limited ?err ?e1)))"
    using fetchMoreInfo_retry [OF m u _ rate_limited_settles r, of "''eth''" reply_rate_limited]
    by (simp add: normalize_examples rate_limited_settles)
  have c3: "coinCache ?s2 = [''btc'' \<mapsto> \<lparr> data = btc_prices, fetchedAt = 1000100 \<rparr>]"
    unfolding f2 by (simp add: c1)
  have n3: "now ?s2 = 1118300"
    unfolding f2 by (simp add: n1 t1)
  have e3: "lockEndTime ?s2 = 1125200"
    unfolding f2 using rl by (simp add: n1 t1)
  have l3: "isApiLocked ?s3"
    unfolding f2
    by (simp add: elapse_isApiLocked doRequest_isApiLocked doRequest_lockTimeoutId
          after_first_failure_rate_limit [OF rl] n1 t1)
  have "cached_valid ?s3 (toLowerCase (trim ''btc'')) = None"
    by (simp add: cached_valid_def c3 n3 COIN_CACHE_TTL_MS_def normalize_examples)
  then have "fetchMoreInfo ''btc'' reply_btc reply_btc ?s3 = (Inl busy_error, ?s3)"
    using l3 n3 e3 by (intro fetchMoreInfo_busy) simp_all
  with c3 n3 show ?thesis
    by (simp add: busy_error_def)
qed

text \<open>
  Two runs from a fresh module. In the first, a call whose request fails with a
  network error and whose retry succeeds is followed one second later by a second call
  for the same identifier: both return the prices, and two requests have been sent,
  not one. In the second, prices for btc are fetched at 1000100; 115 seconds later a
  fetch for eth is rate limited twice, which engages the lock until 1125200; at
  1120300 the btc entry is older than the time-to-live, and the call for btc fails
  with the busy error and sends no request.
\<close>

theorem cache_claim_fails_on_retry_and_under_lock:
  "(fst (fetchMoreInfo ''btc'' reply_offline reply_btc (module_init 1000000)) = Inr btc_prices
   \<and> fst (fetchMoreInfo ''btc'' reply_btc reply_btc
        (elapse 1000 (snd (fetchMoreInfo ''btc'' reply_offline reply_btc (module_init 1000000)))))
        = Inr btc_prices
   \<and> requests (snd (fetchMoreInfo ''btc'' reply_btc reply_btc
        (elapse 1000 (snd (fetchMoreInfo ''btc'' reply_offline reply_btc (module_init 1000000))))))
        = [''btc'', ''btc''])
   \<and> (coinCache (elapse 2000 (snd (fetchMoreInfo ''eth'' reply_rate_limited reply_rate_limited
       (elapse 115000 (snd (fetchMoreInfo ''btc'' reply_btc reply_btc (module_init 1000000)))))))
     ''btc'' = Some \<lparr> data = btc_prices, fetchedAt = 1000100 \<rparr>
   \<and> now (elapse 2000 (snd (fetchMoreInfo ''eth'' reply_rate_limited reply_rate_limited
       (elapse 115000 (snd (fetchMoreInfo ''btc'' reply_btc reply_btc (module_init 1000000)))))))
     = 1120300
   \<and> fetchMoreInfo ''btc'' reply_btc reply_btc
       (elapse 2000 (snd (fetchMoreInfo ''eth'' reply_rate_limited reply_rate_limited
         (elapse 115000 (snd (fetchMoreInfo ''btc'' reply_btc reply_btc (module_init 1000000)))))))
     = (Inl (PlainError ''The server is busy. Please wait 10 seconds...''),
        elapse 2000 (snd (fetchMoreInfo ''eth'' reply_rate_limited reply_rate_limited
         (elapse 115000 (snd (fetchMoreInfo ''btc'' reply_btc reply_btc (module_init 1000000))))))))"
  using example_pair_with_retry example_expired_while_locked by (rule conjI)


section \<open>The rate-limit lock of the detail fetch\<close>

text \<open>
  Claim C2, as the fetch is written. Take any state that the module reaches from its
  start in which call \<open>k\<close> waits for the answer to its first request, and let the
  network answer with a rate-limit response (status 429) at the time \<open>T\<close>. The answer
  engages the lock with its end at \<open>T + 10000\<close>. In every state reached afterwards,
  whatever happens in between (the retry of call \<open>k\<close>, other calls and their answers,
  time passing, subscriptions):

  \<^item> the lock end is \<open>T + 10000\<close> or later, and it is \<open>T + 10000\<close> when no further
    rate-limit response has arrived;
  \<^item> before \<open>T + 10000\<close> the lock is active, and whenever the lock is active a call of
    the detail fetch for any identifier that has no valid cache entry fails at once
    with the busy error: no request is sent and the module state is unchanged;
  \<^item> while the lock is on, time passing short of the lock end leaves it on and calls
    no listener, and time passing up to the lock end or beyond it clears the lock and
    calls every registered listener once, in the order of registration;
  \<^item> once the lock end has passed the lock is off, and such a fetch goes to the
    network: its request is sent at once, or when its throttle wait is over.
\<close>

theorem rate_limit_lock_window:
  assumes reach: "S = run evs0 (start t)"
    and inflight: "k < length (calls S)" "calls S ! k = FirstRequest nid"
    and limited: "status e = Some 429"
    and later: "S' = run evs (step S (Answer k (Rejected (Axios e))))"
    and miss: "cached_valid (api S') (toLowerCase (trim coinId)) = None"
  shows "isApiLocked (api (step S (Answer k (Rejected (Axios e)))))
       \<and> lockEndTime (api (step S (Answer k (Rejected (Axios e))))) = now (api S) + 10000
       \<and> now (api S) + 10000 \<le> lockEndTime (api S')
       \<and> ((\<forall>ev \<in> set evs. \<not> rate_limited ev) \<longrightarrow> lockEndTime (api S') = now (api S) + 10000)
       \<and> (now (api S') < now (api S) + 10000 \<longrightarrow>
             isApiLocked (api S') \<and> now (api S') < lockEndTime (api S')
           \<and> step S' (Call coinId) =
               S'\<lparr> calls := calls S' @
                     [Settled (toLowerCase (trim coinId))
                        (Inl (PlainError ''The server is busy. Please wait 10 seconds...''))] \<rparr>)
       \<and> (isApiLocked (api S') \<and> now (api S') < lockEndTime (api S') \<longrightarrow>
             step S' (Call coinId) =
               S'\<lparr> calls := calls S' @
                     [Settled (toLowerCase (trim coinId))
                        (Inl (PlainError ''The server is busy. Please wait 10 seconds...''))] \<rparr>)
       \<and> (isApiLocked (api S') \<and> now (api S') + int d < lockEndTime (api S') \<longrightarrow>
             isApiLocked (api (step S' (Elapse d)))
           \<and> notified (api (step S' (Elapse d))) = notified (api S'))
       \<and> (isApiLocked (api S') \<and> lockEndTime (api S') \<le> now (api S') + int d \<longrightarrow>
             \<not> isApiLocked (api (step S' (Elapse d)))
           \<and> notified (api (step S' (Elapse d))) = notified (api S') @ lockListeners (api S'))
       \<and> (lockEndTime (api S') \<le> now (api S') \<longrightarrow>
             \<not> isApiLocked (api S')
           \<and> (2000 \<le> now (api S') - lastMoreInfoRequestTime (api S') \<longrightarrow>
                 calls (step S' (Call coinId)) = calls S' @ [FirstRequest (toLowerCase (trim coinId))]
               \<and> requests (api (step S' (Call coinId)))
                   = requests (api S') @ [toLowerCase (trim coinId)])
           \<and> (now (api S') - lastMoreInfoRequestTime (api S') < 2000 \<longrightarrow>
                 calls (step S' (Call coinId))
                   = calls S' @ [ThrottleWait (toLowerCase (trim coinId))
                                   (lastMoreInfoRequestTime (api S') + 2000)]
               \<and> requests (api (step S' (Call coinId))) = requests (api S')
               \<and> requests (api (step (step (step S' (Call coinId))
                      (Elapse (nat (lastMoreInfoRequestTime (api S') + 2000 - now (api S')))))
                      (TimerFires (length (calls S')))))
                   = requests (api S') @ [toLowerCase (trim coinId)]))"
proof -
  let ?S1 = "step S (Answer k (Rejected (Axios e)))"
  let ?T = "now (api S)"
  let ?nid = "toLowerCase (trim coinId)"
  have cS: "lock_consistent (api S)"
    unfolding reach by (rule consistent_reachable)
  have rl: "isRetryableError (interceptor ''/simple/price'' ''usd,eur,ils'' (Axios e))"
      "is_rate_limit (interceptor ''/simple/price'' ''usd,eur,ils'' (Axios e))"
    using limited by (simp_all add: caught_retryable)
  have S1: "api ?S1 = setApiLocked (api S)"
    using inflight rl by (simp add: fetchMoreInfo_after_request_def settle_rejected)
  have c1: "lock_consistent (api ?S1)"
    unfolding S1 by (rule setApiLocked_consistent)
  have cS': "lock_consistent (api S')"
    unfolding later using c1 by (rule consistent_run)
  have a1: "isApiLocked (api ?S1)" and a2: "lockEndTime (api ?S1) = ?T + 10000"
    unfolding S1 by simp_all
  have held: "?T \<le> now (api S') \<and> ?T + 10000 \<le> lockEndTime (api S')
       \<and> (now (api S') < lockEndTime (api S') \<longrightarrow> isApiLocked (api S'))"
    unfolding later
    by (rule lock_held_run [OF c1]) (use S1 in simp_all)
  then have a3: "?T + 10000 \<le> lockEndTime (api S')"
    by simp
  have a4: "(\<forall>ev \<in> set evs. \<not> rate_limited ev) \<longrightarrow> lockEndTime (api S') = ?T + 10000"
    unfolding later using a2 by (simp add: lockEndTime_run)
  have a5: "now (api S') < ?T + 10000 \<longrightarrow>
             isApiLocked (api S') \<and> now (api S') < lockEndTime (api S')
           \<and> step S' (Call coinId) =
               S'\<lparr> calls := calls S' @
                     [Settled ?nid
                        (Inl (PlainError ''The server is busy. Please wait 10 seconds...''))] \<rparr>"
  proof
    assume w: "now (api S') < ?T + 10000"
    with held have l: "isApiLocked (api S')" "now (api S') < lockEndTime (api S')"
      by simp_all
    then have "step S' (Call coinId) = S'\<lparr> calls := calls S' @ [Settled ?nid (Inl busy_error)] \<rparr>"
      using call_busy [OF miss refl] by simp
    with l show "isApiLocked (api S') \<and> now (api S') < lockEndTime (api S')
           \<and> step S' (Call coinId) =
               S'\<lparr> calls := calls S' @
                     [Settled ?nid
                        (Inl (PlainError ''The server is busy. Please wait 10 seconds...''))] \<rparr>"
      by (simp add: busy_error_def)
  qed
  have a5': "isApiLocked (api S') \<and> now (api S') < lockEndTime (api S') \<longrightarrow>
             step S' (Call coinId) =
               S'\<lparr> calls := calls S' @
                     [Settled ?nid
                        (Inl (PlainError ''The server is busy. Please wait 10 seconds...''))] \<rparr>"
    using call_busy [OF miss refl] by (simp add: busy_error_def)
  have timer: "isApiLocked (api S') \<Longrightarrow> lockTimeoutId (api S') = Some (lockEndTime (api S'))"
    using cS' by (auto simp: lock_consistent_def split: option.splits)
  have a6: "isApiLocked (api S') \<and> now (api S') + int d < lockEndTime (api S') \<longrightarrow>
             isApiLocked (api (step S' (Elapse d)))
           \<and> notified (api (step S' (Elapse d))) = notified (api S')"
    using timer by (auto simp: elapse_isApiLocked elapse_notified)
  have a7: "isApiLocked (api S') \<and> lockEndTime (api S') \<le> now (api S') + int d \<longrightarrow>
             \<not> isApiLocked (api (step S' (Elapse d)))
           \<and> notified (api (step S' (Elapse d))) = notified (api S') @ lockListeners (api S')"
    using timer by (auto simp: elapse_isApiLocked elapse_notified)
  have a8: "lockEndTime (api S') \<le> now (api S') \<longrightarrow>
             \<not> isApiLocked (api S')
           \<and> (2000 \<le> now (api S') - lastMoreInfoRequestTime (api S') \<longrightarrow>
                 calls (step S' (Call coinId)) = calls S' @ [FirstRequest ?nid]
               \<and> requests (api (step S' (Call coinId))) = requests (api S') @ [?nid])
           \<and> (now (api S') - lastMoreInfoRequestTime (api S') < 2000 \<longrightarrow>
                 calls (step S' (Call coinId))
                   = calls S' @ [ThrottleWait ?nid (lastMoreInfoRequestTime (api S') + 2000)]
               \<and> requests (api (step S' (Call coinId))) = requests (api S')
               \<and> requests (api (step (step (step S' (Call coinId))
                      (Elapse (nat (lastMoreInfoRequestTime (api S') + 2000 - now (api S')))))
                      (TimerFires (length (calls S')))))
                   = requests (api S') @ [?nid])"
  proof
    assume over: "lockEndTime (api S') \<le> now (api S')"
    have off: "\<not> isApiLocked (api S')"
      using cS' over by (auto simp: lock_consistent_def split: option.splits)
    then have un: "\<not> (isApiLocked (api S') \<and> now (api S') < lockEndTime (api S'))"
      by simp
    have now_case: "2000 \<le> now (api S') - lastMoreInfoRequestTime (api S') \<longrightarrow>
                 calls (step S' (Call coinId)) = calls S' @ [FirstRequest ?nid]
               \<and> requests (api (step S' (Call coinId))) = requests (api S') @ [?nid]"
      using call_sent [OF miss refl un] by simp
    have wait_case: "now (api S') - lastMoreInfoRequestTime (api S') < 2000 \<longrightarrow>
                 calls (step S' (Call coinId))
                   = calls S' @ [ThrottleWait ?nid (lastMoreInfoRequestTime (api S') + 2000)]
               \<and> requests (api (step S' (Call coinId))) = requests (api S')
               \<and> requests (api (step (step (step S' (Call coinId))
                      (Elapse (nat (lastMoreInfoRequestTime (api S') + 2000 - now (api S')))))
                      (TimerFires (length (calls S')))))
                   = requests (api S') @ [?nid]"
    proof
      assume th: "now (api S') - lastMoreInfoRequestTime (api S') < 2000"
      let ?due = "lastMoreInfoRequestTime (api S') + 2000"
      let ?S2 = "S'\<lparr> calls := calls S' @ [ThrottleWait ?nid ?due] \<rparr>"
      let ?S3 = "step ?S2 (Elapse (nat (?due - now (api S'))))"
      have c: "step S' (Call coinId) = ?S2"
        using call_throttled [OF miss refl un th] by simp
      have "fetchMoreInfo_after_timer (length (calls S')) ?S3 =
           ?S3\<lparr> api := (api ?S3)\<lparr> lastMoreInfoRequestTime := now (api ?S3),
                              requests := requests (api ?S3) @ [?nid] \<rparr>,
              calls := (calls ?S3)[length (calls S') := FirstRequest ?nid],
              wire := wire ?S3 @ [(length (calls S'), ?nid)] \<rparr>"
        using th by (intro timer_fires_throttle [where due = ?due]) simp_all
      then have "requests (api (step ?S3 (TimerFires (length (calls S'))))) = requests (api S') @ [?nid]"
        by simp
      then show "calls (step S' (Call coinId))
                   = calls S' @ [ThrottleWait ?nid ?due]
               \<and> requests (api (step S' (Call coinId))) = requests (api S')
               \<and> requests (api (step (step (step S' (Call coinId))
                      (Elapse (nat (?due - now (api S')))))
                      (TimerFires (length (calls S')))))
                   = requests (api S') @ [?nid]"
        unfolding c by simp
    qed
    from off now_case wait_case show "\<not> isApiLocked (api S')
           \<and> (2000 \<le> now (api S') - lastMoreInfoRequestTime (api S') \<longrightarrow>
                 calls (step S' (Call coinId)) = calls S' @ [FirstRequest ?nid]
               \<and> requests (api (step S' (Call coinId))) = requests (api S') @ [?nid])
           \<and> (now (api S') - lastMoreInfoRequestTime (api S') < 2000 \<longrightarrow>
                 calls (step S' (Call coinId))
                   = calls S' @ [ThrottleWait ?nid (lastMoreInfoRequestTime (api S') + 2000)]
               \<and> requests (api (step S' (Call coinId))) = requests (api S')
               \<and> requests (api (step (step (step S' (Call coinId))
                      (Elapse (nat (lastMoreInfoRequestTime (api S') + 2000 - now (api S')))))
                      (TimerFires (length (calls S')))))
                   = requests (api S') @ [?nid])"
      by (intro conjI)
  qed
  from a1 a2 a3 a4 a5 a5' a6 a7 a8 show ?thesis
    by (intro conjI)
qed


text \<open>
  An example from a fresh module at time 1000000 with listener 7 subscribed. The call
  for bitcoin sends its request at once and is answered with a rate-limit response.
  One second later a call for ethereum fails with the busy error; at 1003000 the retry
  of the first call goes out. At 1003500, with that retry still in flight, a call for
  solana fails with the busy error and sends nothing. When 6500 ms more have passed
  the lock is off and listener 7 has been called.
\<close>

theorem rate_limit_lock_window_witness:
  "calls (run [Subscribe 7, Call ''bitcoin''] (start 1000000)) ! 0 = FirstRequest ''bitcoin''
   \<and> status rate_limit_error = Some 429
   \<and> cached_valid
        (api (run [Elapse 1000, Call ''ethereum'', Elapse 2000, TimerFires 0, Elapse 500]
               (step (run [Subscribe 7, Call ''bitcoin''] (start 1000000))
                     (Answer 0 (Rejected (Axios rate_limit_error))))))
        (toLowerCase (trim ''solana'')) = None
   \<and> now (api (run [Elapse 1000, Call ''ethereum'', Elapse 2000, TimerFires 0, Elapse 500]
               (step (run [Subscribe 7, Call ''bitcoin''] (start 1000000))
                     (Answer 0 (Rejected (Axios rate_limit_error)))))) = 1003500
   \<and> calls (run [Elapse 1000, Call ''ethereum'', Elapse 2000, TimerFires 0, Elapse 500]
               (step (run [Subscribe 7, Call ''bitcoin''] (start 1000000))
                     (Answer 0 (Rejected (Axios rate_limit_error)))))
       = [RetryRequest ''bitcoin'',
          Settled ''ethereum'' (Inl (PlainError ''The server is busy. Please wait 10 seconds...''))]
   \<and> calls (step (run [Elapse 1000, Call ''ethereum'', Elapse 2000, TimerFires 0, Elapse 500]
               (step (run [Subscribe 7, Call ''bitcoin''] (start 1000000))
                     (Answer 0 (Rejected (Axios rate_limit_error)))))
             (Call ''solana''))
       = [RetryRequest ''bitcoin'',
          Settled ''ethereum'' (Inl (PlainError ''The server is busy. Please wait 10 seconds...'')),
          Settled ''solana'' (Inl (PlainError ''The server is busy. Please wait 10 seconds...''))]
   \<and> requests (api (step (run [Elapse 1000, Call ''ethereum'', Elapse 2000, TimerFires 0, Elapse 500]
               (step (run [Subscribe 7, Call ''bitcoin''] (start 1000000))
                     (Answer 0 (Rejected (Axios rate_limit_error)))))
             (Call ''solana''))) = [''bitcoin'', ''bitcoin'']
   \<and> \<not> isApiLocked (api (step (run [Elapse 1000, Call ''ethereum'', Elapse 2000, TimerFires 0, Elapse 500]
               (step (run [Subscribe 7, Call ''bitcoin''] (start 1000000))
                     (Answer 0 (Rejected (Axios rate_limit_error)))))
             (Elapse 6500)))
   \<and> notified (api (step (run [Elapse 1000, Call ''ethereum'', Elapse 2000, TimerFires 0, Elapse 500]
               (step (run [Subscribe 7, Call ''bitcoin''] (start 1000000))
                     (Answer 0 (Rejected (Axios rate_limit_error)))))
             (Elapse 6500))) = [7]"
proof -
  let ?S = "run [Subscribe 7, Call ''bitcoin''] (start 1000000)"
  let ?S' = "run [Elapse 1000, Call ''ethereum'', Elapse 2000, TimerFires 0, Elapse 500]
               (step ?S (Answer 0 (Rejected (Axios rate_limit_error))))"
  have S: "?S = \<lparr> api = \<lparr> coinCache = Map.empty, lastMoreInfoRequestTime = 1000000,
                          isApiLocked = False, lockEndTime = 0, lockTimeoutId = None,
                          lockListeners = [7], now = 1000000, requests = [''bitcoin''],
                          notified = [] \<rparr>,
                  calls = [FirstRequest ''bitcoin''], wire = [(0, ''bitcoin'')] \<rparr>"
    by (simp add: run_eval)
  have S': "?S' = \<lparr> api = \<lparr> coinCache = Map.empty, lastMoreInfoRequestTime = 1000000,
                          isApiLocked = True, lockEndTime = 1010000, lockTimeoutId = Some 1010000,
                          lockListeners = [7], now = 1003500,
                          requests = [''bitcoin'', ''bitcoin''], notified = [] \<rparr>,
                  calls = [RetryRequest ''bitcoin'',
                           Settled ''ethereum''
                             (Inl (PlainError ''The server is busy. Please wait 10 seconds...''))],
                  wire = [(0, ''bitcoin''), (0, ''bitcoin'')] \<rparr>"
    unfolding S by (simp add: run_eval)
  have h1: "0 < length (calls ?S)" and h2: "calls ?S ! 0 = FirstRequest ''bitcoin''"
    unfolding S by simp_all
  have h3: "status rate_limit_error = Some 429"
    by (simp add: rate_limit_error_def)
  have h4: "cached_valid (api ?S') (toLowerCase (trim ''solana'')) = None"
    unfolding S' by (simp add: cached_valid_def)
  note w = rate_limit_lock_window [OF refl h1 h2 h3 refl h4, where d = 6500]
  from w have "now (api ?S') < now (api ?S) + 10000 \<longrightarrow>
             isApiLocked (api ?S') \<and> now (api ?S') < lockEndTime (api ?S')
           \<and> step ?S' (Call ''solana'') =
               ?S'\<lparr> calls := calls ?S' @
                     [Settled (toLowerCase (trim ''solana''))
                        (Inl (PlainError ''The server is busy. Please wait 10 seconds...''))] \<rparr>"
    by blast
  moreover have "now (api ?S') < now (api ?S) + 10000"
    unfolding S' unfolding S by simp
  ultimately have busy: "step ?S' (Call ''solana'') =
               ?S'\<lparr> calls := calls ?S' @
                     [Settled (toLowerCase (trim ''solana''))
                        (Inl (PlainError ''The server is busy. Please wait 10 seconds...''))] \<rparr>"
    by blast
  from w have "isApiLocked (api ?S') \<and> lockEndTime (api ?S') \<le> now (api ?S') + int 6500 \<longrightarrow>
             \<not> isApiLocked (api (step ?S' (Elapse 6500)))
           \<and> notified (api (step ?S' (Elapse 6500))) = notified (api ?S') @ lockListeners (api ?S')"
    by blast
  moreover have "isApiLocked (api ?S') \<and> lockEndTime (api ?S') \<le> now (api ?S') + int 6500"
    unfolding S' by simp
  ultimately have clear: "\<not> isApiLocked (api (step ?S' (Elapse 6500)))"
      "notified (api (step ?S' (Elapse 6500))) = notified (api ?S') @ lockListeners (api ?S')"
    by blast+
  have c1: "calls (step ?S' (Call ''solana''))
       = [RetryRequest ''bitcoin'',
          Settled ''ethereum'' (Inl (PlainError ''The server is busy. Please wait 10 seconds...'')),
          Settled ''solana'' (Inl (PlainError ''The server is busy. Please wait 10 seconds...''))]"
    and c2: "requests (api (step ?S' (Call ''solana''))) = [''bitcoin'', ''bitcoin'']"
    unfolding busy unfolding S' by (simp_all add: norm_ex)
  have c3: "notified (api (step ?S' (Elapse 6500))) = [7]"
    unfolding clear(2) unfolding S' by simp
  have c4: "now (api ?S') = 1003500" and c5: "calls ?S' = [RetryRequest ''bitcoin'',
          Settled ''ethereum'' (Inl (PlainError ''The server is busy. Please wait 10 seconds...''))]"
    unfolding S' by simp_all
  from h2 h3 h4 c4 c5 c1 c2 clear(1) c3 show ?thesis
    by (intro conjI)
qed


text \<open>
  A fetch whose first request is rate limited and whose retry succeeds leaves the lock
  on and the prices in the cache; a detail fetch for the same identifier made right
  then, while the lock is active, does not fail: it returns the cached prices.
\<close>

theorem locked_fetch_served_from_cache:
  "isApiLocked (snd (fetchMoreInfo ''btc'' reply_rate_limited reply_btc (module_init 1000000)))
   \<and> now (snd (fetchMoreInfo ''btc'' reply_rate_limited reply_btc (module_init 1000000)))
       < lockEndTime (snd (fetchMoreInfo ''btc'' reply_rate_limited reply_btc (module_init 1000000)))
   \<and> fetchMoreInfo ''btc'' reply_btc reply_btc
        (snd (fetchMoreInfo ''btc'' reply_rate_limited reply_btc (module_init 1000000)))
       = (Inr btc_prices,
          snd (fetchMoreInfo ''btc'' reply_rate_limited reply_btc (module_init 1000000)))"
proof -
  let ?s1 = "snd (fetchMoreInfo ''btc'' reply_rate_limited reply_btc (module_init 1000000))"
  have rl: "is_rate_limit (Axios \<lparr> status = Some 429, code = Some ''ERR_BAD_REQUEST'', message =
       ''Data temporarily unavailable due to high demand. Please try again in a minute.'' \<rparr>)"
    by simp
  have "isApiLocked ?s1"
    by (simp add: example_limited_call doRequest_isApiLocked after_first_failure_rate_limit [OF rl])
  moreover have "now ?s1 < lockEndTime ?s1"
    by (simp add: example_limited_call)
  moreover have "cached_valid ?s1 (toLowerCase (trim ''btc'')) = Some btc_prices"
    by (simp add: example_limited_call cached_valid_def COIN_CACHE_TTL_MS_def normalize_examples)
  then have "fetchMoreInfo ''btc'' reply_btc reply_btc ?s1 = (Inr btc_prices, ?s1)"
    by (rule fetchMoreInfo_hit)
  ultimately show ?thesis
    by simp
qed


text \<open>
  Two remarks on the error paths. A rate-limit response to the retry, after a first
  failure of another kind, is returned to the caller and leaves the lock off: only the
  first \<open>catch\<close> calls \<open>setApiLocked\<close>. And the interceptor rewrites the message of a
  network error before \<open>isRetryableError\<close> sees it, so a library error is retried for
  its status or its code, never for its message alone.
\<close>

lemma retry_rate_limit_leaves_lock_off:
  "fst (fetchMoreInfo ''btc'' reply_offline reply_rate_limited (module_init 1000000))
     = Inl (Axios \<lparr> status = Some 429, code = Some ''ERR_BAD_REQUEST'', message =
         ''Data temporarily unavailable due to high demand. Please try again in a minute.'' \<rparr>)
   \<and> \<not> isApiLocked (snd (fetchMoreInfo ''btc'' reply_offline reply_rate_limited
                            (module_init 1000000)))"
proof -
  have "cached_valid (module_init 1000000) ''btc'' = None"
    by (simp add: cached_valid_def)
  moreover have "\<not> (isApiLocked (module_init 1000000)
          \<and> now (module_init 1000000) < lockEndTime (module_init 1000000))"
    by simp
  moreover have "''btc'' = toLowerCase (trim ''btc'')"
    by (simp add: normalize_examples)
  moreover note example_settles(4)
  moreover have "isRetryableError (Axios \<lparr> status = None, code = Some ''ERR_NETWORK'', message =
                 ''Network error. Check your connection or try again later.'' \<rparr>)"
    by simp
  ultimately have "fetchMoreInfo ''btc'' reply_offline reply_rate_limited (module_init 1000000) =
     (Inl (Axios \<lparr> status = Some 429, code = Some ''ERR_BAD_REQUEST'', message =
         ''Data temporarily unavailable due to high demand. Please try again in a minute.'' \<rparr>),
      snd (doRequest ''btc'' reply_rate_limited
           (after_first_failure ''btc'' reply_offline
              (Axios \<lparr> status = None, code = Some ''ERR_NETWORK'', message =
                 ''Network error. Check your connection or try again later.'' \<rparr>)
              (module_init 1000000))))"
    by (simp add: fetchMoreInfo_retry example_settles)
  moreover have "\<not> isApiLocked (after_first_failure ''btc'' reply_offline
              (Axios \<lparr> status = None, code = Some ''ERR_NETWORK'', message =
                 ''Network error. Check your connection or try again later.'' \<rparr>)
              (module_init 1000000))"
    using after_first_failure_locked_imp [of "Axios \<lparr> status = None, code = Some ''ERR_NETWORK'',
      message = ''Network error. Check your connection or try again later.'' \<rparr>"
      "''btc''" reply_offline "module_init 1000000"]
    by auto
  ultimately show ?thesis
    by (auto dest!: doRequest_locked_imp)
qed

lemma message_alone_not_retried:
  "isRetryableError (Axios \<lparr> status = None, code = None, message = ''Network Error'' \<rparr>)
   \<and> \<not> isRetryableError (interceptor ''/simple/price'' ''usd,eur,ils''
          (Axios \<lparr> status = None, code = None, message = ''Network Error'' \<rparr>))"
  by (simp add: interceptor_detail)


end
